theory Spec2Isabelle
  imports Complex_Main "HOL-Library.Multiset"
begin

section \<open>Data model (internal/models/models.go)\<close>

text \<open>
  Go's \<open>float64\<close> amounts are modelled as \<open>real\<close>: arithmetic is exact, rounding,
  infinities and NaN are not represented. The concrete inputs below are chosen so that
  every comparison comes out the same way in binary floating point.
  \<open>time.Time\<close> is an \<open>int\<close> (nanoseconds since the epoch), Go's \<open>int\<close> counters are
  \<open>nat\<close> or \<open>int\<close>, and a \<open>map[string]bool\<close> that only ever stores \<open>true\<close> is a set.
  Record fields carry a prefix where two Go structs share a field name.
\<close>

datatype ReconciliationStatus =
    StatusMatched
  | StatusMatchedWithVariance
  | StatusUnsettled
  | StatusUnexpectedSettlement
  | StatusDuplicate

record Transaction =
  txn_ID :: string
  txn_OrderID :: string
  txn_ProcessorName :: string
  txn_ProcessorTxnID :: string
  txn_Amount :: real
  txn_Currency :: string
  txn_Country :: string
  txn_Status :: string
  txn_AuthorizedAt :: int
  txn_CapturedAt :: "int option"
  txn_CustomerEmail :: string
  txn_PaymentMethod :: string

record SettlementRecord =
  stl_ID :: string
  stl_ProcessorName :: string
  stl_ProcessorTxnID :: string
  stl_OrderReference :: string
  stl_GrossAmount :: real
  stl_FeeAmount :: real
  stl_NetAmount :: real
  stl_Currency :: string
  stl_SettledAt :: int
  stl_SettlementBatchID :: string

text \<open>
  The \<open>Notes\<close> string of a result is assembled from \<open>fmt.Sprintf\<close> templates. Each
  template is one constructor carrying the template's arguments; the notes of a result
  are the list of its parts, which the source joins with \<open>"; "\<close>. The decimal rendering
  of the amounts (\<open>%.2f\<close>) is not modelled.
\<close>

datatype Note =
    NoteDuplicate string nat
  | NoteUnexpected
  | NoteTolerance real string real
  | NoteCrossCurrency real string real string real string
  | NoteFeeDeduction real string real
  | NoteAmountVariance real real real string
  | NoteLate int int
  | NoteUnsettled

record ReconciliationResult =
  ID :: string
  TransactionID :: string
  SettlementID :: string
  ProcessorName :: string
  Status :: ReconciliationStatus
  ExpectedAmount :: real
  SettledGrossAmount :: real
  SettledNetAmount :: real
  FeeAmount :: real
  VarianceAmount :: real
  Currency :: string
  Country :: string
  AuthorizedAt :: "int option"
  SettledAt :: "int option"
  DaysToSettle :: "int option"
  Notes :: "Note list"

record ReportSummary =
  TotalTransactions :: nat
  TotalSettlements :: nat
  Matched :: nat
  MatchedWithVariance :: nat
  Unsettled :: nat
  UnexpectedSettlements :: nat
  Duplicates :: nat
  TotalExpectedAmount :: real
  TotalSettledGross :: real
  TotalSettledNet :: real
  TotalVarianceAmount :: real
  TotalFees :: real
  ReconciliationRate :: real

record ReconciliationReport =
  RunID :: string
  GeneratedAt :: int
  Summary :: ReportSummary
  ByCurrency :: "string \<rightharpoonup> ReportSummary"
  ByCountry :: "string \<rightharpoonup> ReportSummary"
  ByProcessor :: "string \<rightharpoonup> ReportSummary"
  Results :: "ReconciliationResult list"
  HighPriority :: "ReconciliationResult list"

record ReconciliationConfig =
  VarianceTolerancePct :: real
  LateSettlementDays :: int
  HighPriorityThreshold :: real
  FXRates :: "string \<rightharpoonup> (string \<rightharpoonup> real)"

definition DefaultConfig :: ReconciliationConfig where
  "DefaultConfig =
     \<lparr> VarianceTolerancePct = 0,
       LateSettlementDays = 7,
       HighPriorityThreshold = 1000,
       FXRates =
         [''MXN'' \<mapsto> [''USD'' \<mapsto> 0.058],
          ''COP'' \<mapsto> [''USD'' \<mapsto> 0.00024],
          ''BRL'' \<mapsto> [''USD'' \<mapsto> 0.20],
          ''USD'' \<mapsto> [''USD'' \<mapsto> 1]] \<rparr>"

section \<open>Currency conversion (reconciler.go, convertAmount)\<close>

definition convertAmount :: "ReconciliationConfig \<Rightarrow> real \<Rightarrow> string \<Rightarrow> string \<Rightarrow> real" where
  "convertAmount cfg amount from to =
     (if from = to then amount
      else
        (case (case FXRates cfg from of None \<Rightarrow> None | Some rates \<Rightarrow> rates to) of
           Some rate \<Rightarrow> amount * rate
         | None \<Rightarrow>
             (case FXRates cfg from of
                None \<Rightarrow> amount
              | Some fromUSD \<Rightarrow>
                  (case FXRates cfg to of
                     None \<Rightarrow> amount
                   | Some toUSD \<Rightarrow>
                       (case fromUSD ''USD'' of
                          None \<Rightarrow> amount
                        | Some rateFromToUSD \<Rightarrow>
                            (case toUSD ''USD'' of
                               None \<Rightarrow> amount
                             | Some rateToToUSD \<Rightarrow> amount * rateFromToUSD / rateToToUSD))))))"

text \<open>
  The converter as the specification words it: \<open>rateTable[from][to]\<close> is the two-level
  lookup, and the four cases are tried in the order the specification lists them.
\<close>

definition rateTable :: "ReconciliationConfig \<Rightarrow> string \<Rightarrow> string \<Rightarrow> real option" where
  "rateTable cfg from to = (case FXRates cfg from of None \<Rightarrow> None | Some rates \<Rightarrow> rates to)"

definition convert_spec :: "ReconciliationConfig \<Rightarrow> real \<Rightarrow> string \<Rightarrow> string \<Rightarrow> real" where
  "convert_spec cfg amount from to =
     (if from = to then amount
      else if rateTable cfg from to \<noteq> None then amount * the (rateTable cfg from to)
      else if rateTable cfg from ''USD'' \<noteq> None \<and> rateTable cfg to ''USD'' \<noteq> None
        then amount * the (rateTable cfg from ''USD'') / the (rateTable cfg to ''USD'')
      else amount)"

section \<open>Matching engine (reconciler.go, Run)\<close>

definition processorKey :: "string \<Rightarrow> string \<Rightarrow> string" where
  "processorKey processorName processorTxnID = processorName @ '':'' @ processorTxnID"

definition findTransaction ::
  "string \<Rightarrow> string \<Rightarrow> (string \<rightharpoonup> Transaction) \<Rightarrow> (string \<rightharpoonup> Transaction) \<Rightarrow> Transaction option" where
  "findTransaction pk orderRef byPK byOrder =
     (case byPK pk of
        Some txn \<Rightarrow> Some txn
      | None \<Rightarrow>
          (if orderRef \<noteq> [] then
             (case byOrder orderRef of Some txn \<Rightarrow> Some txn | None \<Rightarrow> None)
           else None))"

subsection \<open>Lookup indexes\<close>

definition txnByProcessorKey :: "Transaction list \<Rightarrow> (string \<rightharpoonup> Transaction)" where
  "txnByProcessorKey transactions =
     foldl (\<lambda>m t. m(processorKey (txn_ProcessorName t) (txn_ProcessorTxnID t) \<mapsto> t))
       Map.empty transactions"

definition txnByOrderID :: "Transaction list \<Rightarrow> (string \<rightharpoonup> Transaction)" where
  "txnByOrderID transactions = foldl (\<lambda>m t. m(txn_OrderID t \<mapsto> t)) Map.empty transactions"

definition stlKey :: "SettlementRecord \<Rightarrow> string" where
  "stlKey s = processorKey (stl_ProcessorName s) (stl_ProcessorTxnID s)"

definition groupAppend ::
  "(string \<rightharpoonup> SettlementRecord list) \<Rightarrow> SettlementRecord \<Rightarrow> (string \<rightharpoonup> SettlementRecord list)" where
  "groupAppend m s =
     m(stlKey s \<mapsto> (case m (stlKey s) of None \<Rightarrow> [] | Some ss \<Rightarrow> ss) @ [s])"

definition settlementsByKey :: "SettlementRecord list \<Rightarrow> (string \<rightharpoonup> SettlementRecord list)" where
  "settlementsByKey settlements = foldl groupAppend Map.empty settlements"

subsection \<open>Result identifiers: \<open>fmt.Sprintf("RR-%s-%04d", runID, resultID)\<close>\<close>

definition digitChar :: "nat \<Rightarrow> char" where
  "digitChar d = ''0123456789'' ! d"

fun decimal :: "nat \<Rightarrow> string" where
  "decimal n = (if n < 10 then [digitChar n] else decimal (n div 10) @ [digitChar (n mod 10)])"

declare decimal.simps [simp del]

definition pad04d :: "nat \<Rightarrow> string" where
  "pad04d n = replicate (4 - length (decimal n)) (CHR ''0'') @ decimal n"

definition resultIDString :: "string \<Rightarrow> nat \<Rightarrow> string" where
  "resultIDString runID n = ''RR-'' @ runID @ ''-'' @ pad04d n"

subsection \<open>Run state\<close>

record RunState =
  results :: "ReconciliationResult list"
  resultID :: nat
  matchedTxnIDs :: "string set"
  matchedSettlementIDs :: "string set"
  duplicateKeys :: "string set"

definition initialState :: RunState where
  "initialState =
     \<lparr> results = [], resultID = 0, matchedTxnIDs = {}, matchedSettlementIDs = {},
       duplicateKeys = {} \<rparr>"

text \<open>
  \<open>int(settledAt.Sub(authAt).Hours() / 24)\<close>: whole days between the two instants,
  truncated toward zero. Go saturates a duration that does not fit 64 bits (about 292
  years) and divides the hours as \<open>float64\<close>; the model computes with the exact
  difference and exact integer division. No theorem below depends on the value.
\<close>

definition nanosPerDay :: int where
  "nanosPerDay = 86400000000000"

definition daysBetween :: "int \<Rightarrow> int \<Rightarrow> int" where
  "daysBetween settledAt authAt =
     (let d = settledAt - authAt
      in if 0 \<le> d then d div nanosPerDay else - ((- d) div nanosPerDay))"

subsection \<open>Phase 1: duplicate groups\<close>

definition duplicateResult ::
  "string \<Rightarrow> nat \<Rightarrow> Transaction option \<Rightarrow> SettlementRecord \<Rightarrow> string \<Rightarrow> ReconciliationResult" where
  "duplicateResult key n txnOpt s rid =
     (let res =
        \<lparr> ID = rid,
          TransactionID = [],
          SettlementID = stl_ID s,
          ProcessorName = stl_ProcessorName s,
          Status = StatusDuplicate,
          ExpectedAmount = 0,
          SettledGrossAmount = stl_GrossAmount s,
          SettledNetAmount = stl_NetAmount s,
          FeeAmount = stl_FeeAmount s,
          VarianceAmount = 0,
          Currency = stl_Currency s,
          Country = [],
          AuthorizedAt = None,
          SettledAt = Some (stl_SettledAt s),
          DaysToSettle = None,
          Notes = [NoteDuplicate key n] \<rparr>
      in case txnOpt of
           None \<Rightarrow> res
         | Some txn \<Rightarrow>
             res\<lparr> TransactionID := txn_ID txn,
                  ExpectedAmount := txn_Amount txn,
                  Country := txn_Country txn,
                  VarianceAmount := stl_GrossAmount s - txn_Amount txn,
                  AuthorizedAt := Some (txn_AuthorizedAt txn),
                  DaysToSettle := Some (daysBetween (stl_SettledAt s) (txn_AuthorizedAt txn)) \<rparr>)"

definition phase1_settlement ::
  "string \<Rightarrow> string \<Rightarrow> nat \<Rightarrow> Transaction option \<Rightarrow> RunState \<Rightarrow> SettlementRecord \<Rightarrow> RunState" where
  "phase1_settlement runID key n txnOpt st s =
     st\<lparr> results :=
            results st @ [duplicateResult key n txnOpt s (resultIDString runID (resultID st + 1))],
          resultID := resultID st + 1,
          matchedTxnIDs :=
            (case txnOpt of
               None \<Rightarrow> matchedTxnIDs st
             | Some txn \<Rightarrow> insert (txn_ID txn) (matchedTxnIDs st)),
          matchedSettlementIDs := insert (stl_ID s) (matchedSettlementIDs st) \<rparr>"

definition phase1_key ::
  "string \<Rightarrow> (string \<rightharpoonup> SettlementRecord list) \<Rightarrow> (string \<rightharpoonup> Transaction) \<Rightarrow>
   (string \<rightharpoonup> Transaction) \<Rightarrow> RunState \<Rightarrow> string \<Rightarrow> RunState" where
  "phase1_key runID byKey byPK byOrder st key =
     (case byKey key of
        None \<Rightarrow> st
      | Some setts \<Rightarrow>
          (if length setts > 1 then
             foldl
               (phase1_settlement runID key (length setts)
                  (findTransaction key (stl_OrderReference (hd setts)) byPK byOrder))
               (st\<lparr> duplicateKeys := insert key (duplicateKeys st) \<rparr>)
               setts
           else st))"

subsection \<open>Phase 2: settlements against transactions\<close>

text \<open>Lines 133--155 of \<open>Run\<close>: the status and the note of a matched pair.\<close>

definition classifyVariance ::
  "ReconciliationConfig \<Rightarrow> Transaction \<Rightarrow> SettlementRecord \<Rightarrow> real \<Rightarrow> real \<Rightarrow>
   ReconciliationStatus \<times> Note list" where
  "classifyVariance cfg txn s expectedAmount variance =
     (if \<bar>variance\<bar> > 0.01 then
        (if \<bar>variance\<bar> \<le> expectedAmount * VarianceTolerancePct cfg then
           (StatusMatched,
            [NoteTolerance variance (stl_Currency s) (VarianceTolerancePct cfg * 100)])
         else if txn_Currency txn \<noteq> stl_Currency s then
           (StatusMatchedWithVariance,
            [NoteCrossCurrency (txn_Amount txn) (txn_Currency txn) (stl_GrossAmount s)
               (stl_Currency s) expectedAmount (stl_Currency s)])
         else if stl_FeeAmount s > 0 \<and> \<bar>variance + stl_FeeAmount s\<bar> < 0.01 then
           (StatusMatched, [NoteFeeDeduction variance (stl_Currency s) (stl_FeeAmount s)])
         else
           (StatusMatchedWithVariance,
            [NoteAmountVariance expectedAmount (stl_GrossAmount s) variance (stl_Currency s)]))
      else (StatusMatched, []))"

definition matchedResult ::
  "ReconciliationConfig \<Rightarrow> Transaction \<Rightarrow> SettlementRecord \<Rightarrow> string \<Rightarrow> ReconciliationResult" where
  "matchedResult cfg txn s rid =
     (let expectedAmount = convertAmount cfg (txn_Amount txn) (txn_Currency txn) (stl_Currency s);
          variance = stl_GrossAmount s - expectedAmount;
          sn = classifyVariance cfg txn s expectedAmount variance;
          days = daysBetween (stl_SettledAt s) (txn_AuthorizedAt txn)
      in \<lparr> ID = rid,
           TransactionID = txn_ID txn,
           SettlementID = stl_ID s,
           ProcessorName = txn_ProcessorName txn,
           Status = fst sn,
           ExpectedAmount = expectedAmount,
           SettledGrossAmount = stl_GrossAmount s,
           SettledNetAmount = stl_NetAmount s,
           FeeAmount = stl_FeeAmount s,
           VarianceAmount = variance,
           Currency = stl_Currency s,
           Country = txn_Country txn,
           AuthorizedAt = Some (txn_AuthorizedAt txn),
           SettledAt = Some (stl_SettledAt s),
           DaysToSettle = Some days,
           Notes =
             (if days > LateSettlementDays cfg
              then snd sn @ [NoteLate days (LateSettlementDays cfg)]
              else snd sn) \<rparr>)"

definition unexpectedResult :: "SettlementRecord \<Rightarrow> string \<Rightarrow> ReconciliationResult" where
  "unexpectedResult s rid =
     \<lparr> ID = rid,
       TransactionID = [],
       SettlementID = stl_ID s,
       ProcessorName = stl_ProcessorName s,
       Status = StatusUnexpectedSettlement,
       ExpectedAmount = 0,
       SettledGrossAmount = stl_GrossAmount s,
       SettledNetAmount = stl_NetAmount s,
       FeeAmount = stl_FeeAmount s,
       VarianceAmount = stl_GrossAmount s,
       Currency = stl_Currency s,
       Country = [],
       AuthorizedAt = None,
       SettledAt = Some (stl_SettledAt s),
       DaysToSettle = None,
       Notes = [NoteUnexpected] \<rparr>"

definition phase2_settlement ::
  "ReconciliationConfig \<Rightarrow> string \<Rightarrow> (string \<rightharpoonup> Transaction) \<Rightarrow> (string \<rightharpoonup> Transaction) \<Rightarrow>
   RunState \<Rightarrow> SettlementRecord \<Rightarrow> RunState" where
  "phase2_settlement cfg runID byPK byOrder st s =
     (if stl_ID s \<in> matchedSettlementIDs st then st
      else if stlKey s \<in> duplicateKeys st then st
      else
        (case findTransaction (stlKey s) (stl_OrderReference s) byPK byOrder of
           None \<Rightarrow>
             st\<lparr> results :=
                    results st @ [unexpectedResult s (resultIDString runID (resultID st + 1))],
                  resultID := resultID st + 1,
                  matchedSettlementIDs := insert (stl_ID s) (matchedSettlementIDs st) \<rparr>
         | Some txn \<Rightarrow>
             st\<lparr> results :=
                    results st @ [matchedResult cfg txn s (resultIDString runID (resultID st + 1))],
                  resultID := resultID st + 1,
                  matchedTxnIDs := insert (txn_ID txn) (matchedTxnIDs st),
                  matchedSettlementIDs := insert (stl_ID s) (matchedSettlementIDs st) \<rparr>))"

subsection \<open>Phase 3: unsettled transactions\<close>

definition unsettledResult :: "Transaction \<Rightarrow> string \<Rightarrow> ReconciliationResult" where
  "unsettledResult txn rid =
     \<lparr> ID = rid,
       TransactionID = txn_ID txn,
       SettlementID = [],
       ProcessorName = txn_ProcessorName txn,
       Status = StatusUnsettled,
       ExpectedAmount = txn_Amount txn,
       SettledGrossAmount = 0,
       SettledNetAmount = 0,
       FeeAmount = 0,
       VarianceAmount = 0,
       Currency = txn_Currency txn,
       Country = txn_Country txn,
       AuthorizedAt = Some (txn_AuthorizedAt txn),
       SettledAt = None,
       DaysToSettle = None,
       Notes = [NoteUnsettled] \<rparr>"

definition phase3_transaction :: "string \<Rightarrow> RunState \<Rightarrow> Transaction \<Rightarrow> RunState" where
  "phase3_transaction runID st txn =
     (if txn_ID txn \<in> matchedTxnIDs st then st
      else
        st\<lparr> results :=
               results st @ [unsettledResult txn (resultIDString runID (resultID st + 1))],
             resultID := resultID st + 1 \<rparr>)"

subsection \<open>The three phases in order\<close>

text \<open>
  Go leaves the iteration order of \<open>range settlementsByKey\<close> unspecified. The order the
  run happens to use is the parameter \<open>keys\<close>; \<open>rangeOrder\<close> says that it lists every key
  of the map once. \<open>transactions\<close> and \<open>settlements\<close> are the snapshots returned by
  \<open>ListTransactions\<close> and \<open>ListSettlements\<close>, which read maps keyed by record
  identifier, so the identifiers within each snapshot are pairwise distinct.
\<close>

definition rangeOrder :: "string list \<Rightarrow> (string \<rightharpoonup> 'v) \<Rightarrow> bool" where
  "rangeOrder keys m = (distinct keys \<and> set keys = dom m)"

definition afterPhase1 :: "string list \<Rightarrow> string \<Rightarrow> Transaction list \<Rightarrow> SettlementRecord list \<Rightarrow> RunState" where
  "afterPhase1 keys runID transactions settlements =
     foldl
       (phase1_key runID (settlementsByKey settlements) (txnByProcessorKey transactions)
          (txnByOrderID transactions))
       initialState keys"

definition afterPhase2 ::
  "ReconciliationConfig \<Rightarrow> string list \<Rightarrow> string \<Rightarrow> Transaction list \<Rightarrow> SettlementRecord list \<Rightarrow> RunState" where
  "afterPhase2 cfg keys runID transactions settlements =
     foldl
       (phase2_settlement cfg runID (txnByProcessorKey transactions) (txnByOrderID transactions))
       (afterPhase1 keys runID transactions settlements) settlements"

definition afterPhase3 ::
  "ReconciliationConfig \<Rightarrow> string list \<Rightarrow> string \<Rightarrow> Transaction list \<Rightarrow> SettlementRecord list \<Rightarrow> RunState" where
  "afterPhase3 cfg keys runID transactions settlements =
     foldl (phase3_transaction runID) (afterPhase2 cfg keys runID transactions settlements)
       transactions"

definition runResults ::
  "ReconciliationConfig \<Rightarrow> string list \<Rightarrow> string \<Rightarrow> Transaction list \<Rightarrow> SettlementRecord list \<Rightarrow>
   ReconciliationResult list" where
  "runResults cfg keys runID transactions settlements =
     results (afterPhase3 cfg keys runID transactions settlements)"

section \<open>Report aggregation (reconciler.go, buildReport)\<close>

definition emptySummary :: ReportSummary where
  "emptySummary =
     \<lparr> TotalTransactions = 0, TotalSettlements = 0, Matched = 0, MatchedWithVariance = 0,
       Unsettled = 0, UnexpectedSettlements = 0, Duplicates = 0, TotalExpectedAmount = 0,
       TotalSettledGross = 0, TotalSettledNet = 0, TotalVarianceAmount = 0, TotalFees = 0,
       ReconciliationRate = 0 \<rparr>"

definition countStatus :: "ReportSummary \<Rightarrow> ReconciliationStatus \<Rightarrow> ReportSummary" where
  "countStatus s status =
     (case status of
        StatusMatched \<Rightarrow> s\<lparr> Matched := Matched s + 1 \<rparr>
      | StatusMatchedWithVariance \<Rightarrow> s\<lparr> MatchedWithVariance := MatchedWithVariance s + 1 \<rparr>
      | StatusUnsettled \<Rightarrow> s\<lparr> Unsettled := Unsettled s + 1 \<rparr>
      | StatusUnexpectedSettlement \<Rightarrow> s\<lparr> UnexpectedSettlements := UnexpectedSettlements s + 1 \<rparr>
      | StatusDuplicate \<Rightarrow> s\<lparr> Duplicates := Duplicates s + 1 \<rparr>)"

definition addToSummary :: "ReportSummary \<Rightarrow> ReconciliationResult \<Rightarrow> ReportSummary" where
  "addToSummary s res =
     (countStatus s (Status res))
       \<lparr> TotalExpectedAmount := TotalExpectedAmount s + ExpectedAmount res,
         TotalSettledGross := TotalSettledGross s + SettledGrossAmount res,
         TotalSettledNet := TotalSettledNet s + SettledNetAmount res,
         TotalVarianceAmount := TotalVarianceAmount s + VarianceAmount res,
         TotalFees := TotalFees s + FeeAmount res \<rparr>"

text \<open>
  One breakdown bucket: \<open>s := m[k]; addToSummary(&s, res); m[k] = s\<close>, skipped when the
  key is the empty string. A missing bucket reads as the zero summary.
\<close>

definition addToBreakdown ::
  "(string \<rightharpoonup> ReportSummary) \<Rightarrow> string \<Rightarrow> ReconciliationResult \<Rightarrow> (string \<rightharpoonup> ReportSummary)" where
  "addToBreakdown m k res =
     (if k \<noteq> [] then
        m(k \<mapsto> addToSummary (case m k of None \<Rightarrow> emptySummary | Some s \<Rightarrow> s) res)
      else m)"

text \<open>Lines 245--261: the two high-priority tests, the second one guarded by a search
  of the list for the result's identifier.\<close>

definition flagHighPriority ::
  "ReconciliationConfig \<Rightarrow> ReconciliationResult list \<Rightarrow> ReconciliationResult \<Rightarrow>
   ReconciliationResult list" where
  "flagHighPriority cfg hp res =
     (let hp1 =
        (if Status res \<noteq> StatusMatched \<and> \<bar>VarianceAmount res\<bar> \<ge> HighPriorityThreshold cfg
         then hp @ [res] else hp)
      in case DaysToSettle res of
           None \<Rightarrow> hp1
         | Some days \<Rightarrow>
             (if days > LateSettlementDays cfg then
                (if list_ex (\<lambda>h. ID h = ID res) hp1 then hp1 else hp1 @ [res])
              else hp1))"

definition aggregateResult ::
  "ReconciliationConfig \<Rightarrow> ReconciliationReport \<Rightarrow> ReconciliationResult \<Rightarrow> ReconciliationReport" where
  "aggregateResult cfg report res =
     report\<lparr> Summary := addToSummary (Summary report) res,
             ByCurrency := addToBreakdown (ByCurrency report) (Currency res) res,
             ByCountry := addToBreakdown (ByCountry report) (Country res) res,
             ByProcessor := addToBreakdown (ByProcessor report) (ProcessorName res) res,
             HighPriority := flagHighPriority cfg (HighPriority report) res \<rparr>"

definition summaryTotal :: "ReportSummary \<Rightarrow> nat" where
  "summaryTotal s =
     Matched s + MatchedWithVariance s + Unsettled s + UnexpectedSettlements s + Duplicates s"

definition setRate :: "ReconciliationReport \<Rightarrow> ReconciliationReport" where
  "setRate report =
     (if summaryTotal (Summary report) > 0 then
        report\<lparr> Summary := (Summary report)
          \<lparr> ReconciliationRate :=
              real (Matched (Summary report) + MatchedWithVariance (Summary report))
                / real (summaryTotal (Summary report)) * 100 \<rparr> \<rparr>
      else report)"

text \<open>\<open>buildReport\<close> up to, and without, the final \<open>sort.Slice\<close>.\<close>

definition buildReport_unsorted ::
  "ReconciliationConfig \<Rightarrow> int \<Rightarrow> string \<Rightarrow> Transaction list \<Rightarrow> SettlementRecord list \<Rightarrow>
   ReconciliationResult list \<Rightarrow> ReconciliationReport" where
  "buildReport_unsorted cfg now runID txns setts rs =
     setRate
       (foldl (aggregateResult cfg)
          \<lparr> RunID = runID,
            GeneratedAt = now,
            Summary = emptySummary\<lparr> TotalTransactions := length txns, TotalSettlements := length setts \<rparr>,
            ByCurrency = Map.empty,
            ByCountry = Map.empty,
            ByProcessor = Map.empty,
            Results = rs,
            HighPriority = [] \<rparr>
          rs)"

text \<open>
  \<open>sort.Slice\<close> belongs to Go's standard library. Its documentation promises a
  rearrangement of the slice in which no element is \<open>less\<close> (here \<open>lessFn\<close>) than an element before it,
  and states that the sort is not guaranteed to be stable. \<open>sort_Slice lessFn xs ys\<close> says
  that \<open>ys\<close> is a result this contract admits for the input \<open>xs\<close>.
\<close>

definition sort_Slice :: "('a \<Rightarrow> 'a \<Rightarrow> bool) \<Rightarrow> 'a list \<Rightarrow> 'a list \<Rightarrow> bool" where
  "sort_Slice lessFn xs ys = (mset ys = mset xs \<and> sorted_wrt (\<lambda>a b. \<not> lessFn b a) ys)"

text \<open>The comparison closure handed to \<open>sort.Slice\<close> (line 273).\<close>

definition absVarianceGreater :: "ReconciliationResult \<Rightarrow> ReconciliationResult \<Rightarrow> bool" where
  "absVarianceGreater a b = (\<bar>VarianceAmount a\<bar> > \<bar>VarianceAmount b\<bar>)"

text \<open>
  \<open>buildReport \<dots> report\<close>: \<open>report\<close> is a report the function may return. \<open>now\<close> is the
  reading of the clock behind \<open>GeneratedAt\<close>.
\<close>

definition buildReport ::
  "ReconciliationConfig \<Rightarrow> int \<Rightarrow> string \<Rightarrow> Transaction list \<Rightarrow> SettlementRecord list \<Rightarrow>
   ReconciliationResult list \<Rightarrow> ReconciliationReport \<Rightarrow> bool" where
  "buildReport cfg now runID txns setts rs report =
     (sort_Slice absVarianceGreater
        (HighPriority (buildReport_unsorted cfg now runID txns setts rs)) (HighPriority report)
      \<and> report = (buildReport_unsorted cfg now runID txns setts rs)
                   \<lparr> HighPriority := HighPriority report \<rparr>)"

text \<open>
  \<open>Run cfg keys now runID transactions settlements report\<close>: with the store holding the
  two snapshots, the map iteration taking the order \<open>keys\<close> and the clock reading \<open>now\<close>,
  \<open>Run(runID)\<close> may return \<open>report\<close>.
\<close>

definition Run ::
  "ReconciliationConfig \<Rightarrow> string list \<Rightarrow> int \<Rightarrow> string \<Rightarrow> Transaction list \<Rightarrow>
   SettlementRecord list \<Rightarrow> ReconciliationReport \<Rightarrow> bool" where
  "Run cfg keys now runID transactions settlements report =
     (rangeOrder keys (settlementsByKey settlements)
      \<and> buildReport cfg now runID transactions settlements
          (runResults cfg keys runID transactions settlements) report)"

section \<open>The claimed properties, as the specification words them, and proof notions\<close>

text \<open>
  The high-priority test of the specification: status not \<open>matched\<close> and absolute
  variance at or above the threshold, or days-to-settle above the late threshold.
\<close>

definition highPriority_spec :: "ReconciliationConfig \<Rightarrow> ReconciliationResult \<Rightarrow> bool" where
  "highPriority_spec cfg r =
     ((Status r \<noteq> StatusMatched \<and> \<bar>VarianceAmount r\<bar> \<ge> HighPriorityThreshold cfg)
      \<or> (case DaysToSettle r of None \<Rightarrow> False | Some d \<Rightarrow> d > LateSettlementDays cfg))"

definition countOf :: "ReconciliationStatus \<Rightarrow> ReconciliationResult list \<Rightarrow> nat" where
  "countOf st rs = length (filter (\<lambda>r. Status r = st) rs)"

text \<open>The reconciliation rate of the specification, from the five status counts.\<close>

definition rate_spec :: "nat \<Rightarrow> nat \<Rightarrow> nat \<Rightarrow> nat \<Rightarrow> nat \<Rightarrow> real" where
  "rate_spec matched matchedWithVariance unsettled unexpected duplicate =
     (if matched + matchedWithVariance + unsettled + unexpected + duplicate = 0 then 0
      else real (matched + matchedWithVariance)
             / real (matched + matchedWithVariance + unsettled + unexpected + duplicate) * 100)"

text \<open>Reading a decimal numeral back, used to show that identifiers do not collide.\<close>

definition digitVal :: "char \<Rightarrow> nat" where
  "digitVal c = of_char c - 48"

definition decimalValue :: "string \<Rightarrow> nat" where
  "decimalValue s = foldl (\<lambda>a c. 10 * a + digitVal c) 0 s"

text \<open>Invariants of the run state, used in the proofs.\<close>

definition idsInOrder :: "string \<Rightarrow> RunState \<Rightarrow> bool" where
  "idsInOrder runID st =
     (resultID st = length (results st)
      \<and> map ID (results st)
          = map (\<lambda>i. resultIDString runID (Suc i)) [0..<length (results st)])"

definition unsettledBare :: "RunState \<Rightarrow> bool" where
  "unsettledBare st =
     (\<forall>r \<in> set (results st).
        Status r = StatusUnsettled \<longrightarrow> VarianceAmount r = 0 \<and> DaysToSettle r = None)"

definition matchedCovered :: "RunState \<Rightarrow> bool" where
  "matchedCovered st = (matchedTxnIDs st \<subseteq> TransactionID ` set (results st))"

text \<open>
  \<open>fromPhase2 cfg txns setts r\<close>: the outcome \<open>r\<close> is the one phase 2 builds for some
  settlement of the snapshot and the transaction \<open>findTransaction\<close> returns for it.
\<close>

definition fromPhase2 ::
  "ReconciliationConfig \<Rightarrow> Transaction list \<Rightarrow> SettlementRecord list \<Rightarrow> ReconciliationResult \<Rightarrow> bool" where
  "fromPhase2 cfg txns setts r =
     (\<exists>txn s. s \<in> set setts
        \<and> findTransaction (stlKey s) (stl_OrderReference s) (txnByProcessorKey txns)
              (txnByOrderID txns) = Some txn
        \<and> r = matchedResult cfg txn s (ID r))"

definition matchesFromPhase2 ::
  "ReconciliationConfig \<Rightarrow> Transaction list \<Rightarrow> SettlementRecord list \<Rightarrow> RunState \<Rightarrow> bool" where
  "matchesFromPhase2 cfg txns setts st =
     (\<forall>r \<in> set (results st).
        Status r = StatusMatched \<or> Status r = StatusMatchedWithVariance \<longrightarrow>
        fromPhase2 cfg txns setts r)"

text \<open>
  For the coverage proof: the settlement references of the outcomes that carry one, the
  members of the duplicate groups in the order phase 1 visits them, and the keys phase 1
  marks as duplicate.
\<close>

definition settledIDs :: "ReconciliationResult list \<Rightarrow> string list" where
  "settledIDs rs = map SettlementID (filter (\<lambda>r. Status r \<noteq> StatusUnsettled) rs)"

definition dupGroup :: "(string \<rightharpoonup> SettlementRecord list) \<Rightarrow> string \<Rightarrow> SettlementRecord list" where
  "dupGroup byKey k =
     (case byKey k of None \<Rightarrow> [] | Some ss \<Rightarrow> if length ss > 1 then ss else [])"

definition dupGroups :: "(string \<rightharpoonup> SettlementRecord list) \<Rightarrow> string list \<Rightarrow> SettlementRecord list" where
  "dupGroups byKey keys = concat (map (dupGroup byKey) keys)"

definition dupKeySet :: "(string \<rightharpoonup> SettlementRecord list) \<Rightarrow> string list \<Rightarrow> string set" where
  "dupKeySet byKey keys = {k \<in> set keys. dupGroup byKey k \<noteq> []}"

definition isDup :: "SettlementRecord list \<Rightarrow> SettlementRecord \<Rightarrow> bool" where
  "isDup setts s = (length (filter (\<lambda>s'. stlKey s' = stlKey s) setts) > 1)"

text \<open>
  What the run emits for a settlement, read off the snapshots alone. A settlement is a
  duplicate (\<open>isDup\<close>) when another settlement of the snapshot has its processor key. The
  transaction attached to it is the one \<open>findTransaction\<close> returns for its key and, in a
  duplicate group, the order reference of the group's first member, otherwise its own
  order reference. Its status is \<open>duplicate\<close> in a duplicate group,
  \<open>unexpected_settlement\<close> when no transaction is found, and the status of the matched
  pair otherwise. The empty string is Go's "no reference".
\<close>

definition optID :: "Transaction option \<Rightarrow> string" where
  "optID txnOpt = (case txnOpt of None \<Rightarrow> [] | Some txn \<Rightarrow> txn_ID txn)"

definition optIDs :: "Transaction option \<Rightarrow> string list" where
  "optIDs txnOpt = (case txnOpt of None \<Rightarrow> [] | Some txn \<Rightarrow> [txn_ID txn])"

definition matchStatus ::
  "ReconciliationConfig \<Rightarrow> Transaction \<Rightarrow> SettlementRecord \<Rightarrow> ReconciliationStatus" where
  "matchStatus cfg txn s = Status (matchedResult cfg txn s [])"

definition resolvedTransaction ::
  "Transaction list \<Rightarrow> SettlementRecord list \<Rightarrow> SettlementRecord \<Rightarrow> Transaction option" where
  "resolvedTransaction txns setts s =
     findTransaction (stlKey s)
       (if isDup setts s
        then stl_OrderReference (hd (filter (\<lambda>s'. stlKey s' = stlKey s) setts))
        else stl_OrderReference s)
       (txnByProcessorKey txns) (txnByOrderID txns)"

definition settlementStatus ::
  "ReconciliationConfig \<Rightarrow> Transaction list \<Rightarrow> SettlementRecord list \<Rightarrow> SettlementRecord \<Rightarrow>
   ReconciliationStatus" where
  "settlementStatus cfg txns setts s =
     (if isDup setts s then StatusDuplicate
      else
        (case resolvedTransaction txns setts s of
           None \<Rightarrow> StatusUnexpectedSettlement
         | Some txn \<Rightarrow> matchStatus cfg txn s))"

definition settlementOutcome ::
  "ReconciliationConfig \<Rightarrow> Transaction list \<Rightarrow> SettlementRecord list \<Rightarrow> SettlementRecord \<Rightarrow>
   string \<times> ReconciliationStatus \<times> string" where
  "settlementOutcome cfg txns setts s =
     (stl_ID s, settlementStatus cfg txns setts s, optID (resolvedTransaction txns setts s))"

definition resolvedIDList :: "Transaction list \<Rightarrow> SettlementRecord list \<Rightarrow> string list" where
  "resolvedIDList txns setts = concat (map (\<lambda>s. optIDs (resolvedTransaction txns setts s)) setts)"

text \<open>The same three fields of an emitted outcome, and the two halves of an outcome list.\<close>

definition outcomeKey :: "ReconciliationResult \<Rightarrow> string \<times> ReconciliationStatus \<times> string" where
  "outcomeKey r = (SettlementID r, Status r, TransactionID r)"

definition settledKeys :: "ReconciliationResult list \<Rightarrow> (string \<times> ReconciliationStatus \<times> string) list" where
  "settledKeys rs = map outcomeKey (filter (\<lambda>r. Status r \<noteq> StatusUnsettled) rs)"

definition unsettledIDs :: "ReconciliationResult list \<Rightarrow> string list" where
  "unsettledIDs rs = map TransactionID (filter (\<lambda>r. Status r = StatusUnsettled) rs)"

text \<open>Proof notions: the transaction phase 1 attaches to a group, and what phase 2 emits
  for a settlement it does not skip.\<close>

definition dupTxn ::
  "(string \<rightharpoonup> SettlementRecord list) \<Rightarrow> (string \<rightharpoonup> Transaction) \<Rightarrow> (string \<rightharpoonup> Transaction) \<Rightarrow>
   string \<Rightarrow> Transaction option" where
  "dupTxn byKey byPK byOrder key =
     findTransaction key (stl_OrderReference (hd (dupGroup byKey key))) byPK byOrder"

definition phase2Txn ::
  "(string \<rightharpoonup> Transaction) \<Rightarrow> (string \<rightharpoonup> Transaction) \<Rightarrow> SettlementRecord \<Rightarrow> Transaction option" where
  "phase2Txn byPK byOrder s = findTransaction (stlKey s) (stl_OrderReference s) byPK byOrder"

definition phase2Outcome ::
  "ReconciliationConfig \<Rightarrow> (string \<rightharpoonup> Transaction) \<Rightarrow> (string \<rightharpoonup> Transaction) \<Rightarrow> SettlementRecord \<Rightarrow>
   string \<times> ReconciliationStatus \<times> string" where
  "phase2Outcome cfg byPK byOrder s =
     (stl_ID s,
      (case phase2Txn byPK byOrder s of
         None \<Rightarrow> StatusUnexpectedSettlement
       | Some txn \<Rightarrow> matchStatus cfg txn s),
      optID (phase2Txn byPK byOrder s))"

section \<open>Concrete inputs\<close>

text \<open>
  A small store used by the witnesses: one transaction settled twice under the same
  processor key (a duplicate group, in another currency than the authorization), one
  transaction never settled, one settled late and short, and one settlement nobody
  authorized.
\<close>

definition exTxn :: "string \<Rightarrow> string \<Rightarrow> string \<Rightarrow> real \<Rightarrow> string \<Rightarrow> Transaction" where
  "exTxn tid orderID ptid amount cur =
     \<lparr> txn_ID = tid, txn_OrderID = orderID, txn_ProcessorName = ''P1'',
       txn_ProcessorTxnID = ptid, txn_Amount = amount, txn_Currency = cur,
       txn_Country = ''MX'', txn_Status = ''captured'', txn_AuthorizedAt = 0,
       txn_CapturedAt = None, txn_CustomerEmail = [], txn_PaymentMethod = ''pix'' \<rparr>"

definition exStl ::
  "string \<Rightarrow> string \<Rightarrow> string \<Rightarrow> real \<Rightarrow> real \<Rightarrow> string \<Rightarrow> int \<Rightarrow> SettlementRecord" where
  "exStl sid ptid orderRef gross fee cur days =
     \<lparr> stl_ID = sid, stl_ProcessorName = ''P1'', stl_ProcessorTxnID = ptid,
       stl_OrderReference = orderRef, stl_GrossAmount = gross, stl_FeeAmount = fee,
       stl_NetAmount = gross - fee, stl_Currency = cur,
       stl_SettledAt = days * nanosPerDay, stl_SettlementBatchID = [] \<rparr>"

definition exTxns :: "Transaction list" where
  "exTxns =
     [exTxn ''T1'' ''O1'' ''X1'' 1000 ''BRL'',
      exTxn ''T2'' ''O2'' ''X2'' 500 ''USD'',
      exTxn ''T3'' ''O3'' ''X3'' 5000 ''USD'']"

definition exSetts :: "SettlementRecord list" where
  "exSetts =
     [exStl ''S1'' ''X1'' ''O1'' 200 0 ''USD'' 2,
      exStl ''S2'' ''X1'' ''O1'' 200 0 ''USD'' 3,
      exStl ''S3'' ''Y1'' ''O9'' 2000 0 ''USD'' 2,
      exStl ''S5'' ''X3'' ''O3'' 3000 0 ''USD'' 10]"

definition exKeys :: "string list" where
  "exKeys = [''P1:X3'', ''P1:X1'', ''P1:Y1'']"

definition exReport :: ReconciliationReport where
  "exReport =
     buildReport_unsorted DefaultConfig 0 ''R'' exTxns exSetts
       (runResults DefaultConfig exKeys ''R'' exTxns exSetts)"

text \<open>
  Thirteen settlements nobody authorized, so that every one of them becomes a
  high-priority \<open>unexpected_settlement\<close> outcome whose variance is its gross amount; and a
  report that lists them in the order \<open>exShuffle\<close> (positions in the unsorted list).
\<close>

definition exUnexpected :: "string \<Rightarrow> real \<Rightarrow> SettlementRecord" where
  "exUnexpected n gross = exStl (''S'' @ n) (''Y'' @ n) [] gross 0 ''USD'' 2"

definition exTieSetts :: "SettlementRecord list" where
  "exTieSetts =
     [exUnexpected ''01'' 5000, exUnexpected ''02'' 5000, exUnexpected ''03'' 9000,
      exUnexpected ''04'' 9000, exUnexpected ''05'' 9000, exUnexpected ''06'' 9000,
      exUnexpected ''07'' 7000, exUnexpected ''08'' 1000, exUnexpected ''09'' 1000,
      exUnexpected ''10'' 1000, exUnexpected ''11'' 1000, exUnexpected ''12'' 1000,
      exUnexpected ''13'' 1000]"

definition exTieKeys :: "string list" where
  "exTieKeys = map stlKey exTieSetts"

definition exShuffle :: "nat list" where
  "exShuffle = [4, 5, 2, 3, 6, 1, 0, 7, 8, 9, 10, 11, 12]"

definition exTieReport :: ReconciliationReport where
  "exTieReport =
     (buildReport_unsorted DefaultConfig 0 ''R'' [] exTieSetts
        (runResults DefaultConfig exTieKeys ''R'' [] exTieSetts))
     \<lparr> HighPriority :=
         map ((!) (HighPriority (buildReport_unsorted DefaultConfig 0 ''R'' [] exTieSetts
                (runResults DefaultConfig exTieKeys ''R'' [] exTieSetts)))) exShuffle \<rparr>"

text \<open>One authorization of 100 MXN and settlements of it, for the classification
  examples; \<open>cfgTolerance2\<close> is the default configuration with a 2% tolerance.\<close>

definition exTxnMXN :: Transaction where
  "exTxnMXN = exTxn ''T1'' ''O1'' ''X1'' 100 ''MXN''"

definition exStlMXN :: "real \<Rightarrow> real \<Rightarrow> SettlementRecord" where
  "exStlMXN gross fee = exStl ''S1'' ''X1'' ''O1'' gross fee ''MXN'' 2"

definition cfgTolerance2 :: ReconciliationConfig where
  "cfgTolerance2 = DefaultConfig\<lparr> VarianceTolerancePct := 0.02 \<rparr>"

text \<open>
  One authorization and two settlements of it under different processor transaction
  identifiers: the first matches on the processor key, the second on the order
  reference.
\<close>

definition exFallbackSetts :: "SettlementRecord list" where
  "exFallbackSetts =
     [exStl ''S1'' ''X1'' ''O1'' 100 0 ''MXN'' 2,
      exStl ''S2'' ''X9'' ''O1'' 100 0 ''MXN'' 2]"

definition exFallbackKeys :: "string list" where
  "exFallbackKeys = [''P1:X1'', ''P1:X9'']"

definition exFallbackReport :: ReconciliationReport where
  "exFallbackReport =
     buildReport_unsorted DefaultConfig 0 ''R'' [exTxnMXN] exFallbackSetts
       (runResults DefaultConfig exFallbackKeys ''R'' [exTxnMXN] exFallbackSetts)"

text \<open>An authorization of 1000 BRL settled twice, in USD, under one processor key.\<close>

definition exDupTxns :: "Transaction list" where
  "exDupTxns = [exTxn ''T1'' ''O1'' ''X1'' 1000 ''BRL'']"

definition exDupSetts :: "SettlementRecord list" where
  "exDupSetts =
     [exStl ''S1'' ''X1'' ''O1'' 200 0 ''USD'' 2,
      exStl ''S2'' ''X1'' ''O1'' 200 0 ''USD'' 3]"

section \<open>Auxiliary lemmas\<close>

subsection \<open>Folds\<close>

lemma foldl_invariant:
  assumes "P s" and "\<And>s x. P s \<Longrightarrow> x \<in> set xs \<Longrightarrow> P (f s x)"
  shows "P (foldl f s xs)"
  using assms by (induction xs arbitrary: s) auto

lemma Results_aggregateResult [simp]: "Results (aggregateResult cfg rep r) = Results rep"
  by (simp add: aggregateResult_def)

lemma HighPriority_aggregateResult:
  "HighPriority (aggregateResult cfg rep r) = flagHighPriority cfg (HighPriority rep) r"
  by (simp add: aggregateResult_def)

lemma Summary_aggregateResult [simp]:
  "Summary (aggregateResult cfg rep r) = addToSummary (Summary rep) r"
  by (simp add: aggregateResult_def)

lemma Results_foldl_aggregate: "Results (foldl (aggregateResult cfg) rep rs) = Results rep"
  by (induction rs arbitrary: rep) simp_all

lemma flagHighPriority_fresh:
  assumes "ID r \<notin> ID ` set hp"
  shows "flagHighPriority cfg hp r = hp @ (if highPriority_spec cfg r then [r] else [])"
proof -
  have fresh: "\<And>h. h \<in> set hp \<Longrightarrow> ID h \<noteq> ID r"
    using assms by (metis imageI)
  show ?thesis
    by (auto simp: flagHighPriority_def highPriority_spec_def list_ex_iff Let_def fresh
        split: option.splits)
qed

lemma HighPriority_foldl_aggregate:
  assumes "distinct (map ID rs)" and "ID ` set (HighPriority rep) \<inter> ID ` set rs = {}"
  shows "HighPriority (foldl (aggregateResult cfg) rep rs)
         = HighPriority rep @ filter (highPriority_spec cfg) rs"
  using assms
proof (induction rs arbitrary: rep)
  case Nil
  then show ?case by simp
next
  case (Cons r rs)
  have fresh: "ID r \<notin> ID ` set (HighPriority rep)"
    using Cons.prems(2) by auto
  have step: "HighPriority (aggregateResult cfg rep r)
              = HighPriority rep @ (if highPriority_spec cfg r then [r] else [])"
    by (simp add: HighPriority_aggregateResult flagHighPriority_fresh [OF fresh])
  have disj: "ID ` set (HighPriority (aggregateResult cfg rep r)) \<inter> ID ` set rs = {}"
    using Cons.prems by (auto simp: step)
  have "distinct (map ID rs)" using Cons.prems(1) by simp
  from Cons.IH [OF this disj] show ?case
    by (simp add: step)
qed

lemma HighPriority_setRate [simp]: "HighPriority (setRate rep) = HighPriority rep"
  by (simp add: setRate_def)

lemma Results_setRate [simp]: "Results (setRate rep) = Results rep"
  by (simp add: setRate_def)

lemma HighPriority_unsorted:
  assumes "distinct (map ID rs)"
  shows "HighPriority (buildReport_unsorted cfg now runID txns setts rs)
         = filter (highPriority_spec cfg) rs"
  using HighPriority_foldl_aggregate [OF assms, where cfg = cfg] 
  by (simp add: buildReport_unsorted_def)

lemma Results_unsorted [simp]:
  "Results (buildReport_unsorted cfg now runID txns setts rs) = rs"
  by (simp add: buildReport_unsorted_def Results_foldl_aggregate)

lemma Results_buildReport:
  "buildReport cfg now runID txns setts rs report \<Longrightarrow> Results report = rs"
  unfolding buildReport_def
  by (metis Results_unsorted ReconciliationReport.select_convs(7) ReconciliationReport.surjective ReconciliationReport.update_convs(8))

subsection \<open>Summary counters\<close>

lemma counters_countStatus:
  "Matched (countStatus s st) = Matched s + (if st = StatusMatched then 1 else 0)"
  "MatchedWithVariance (countStatus s st)
     = MatchedWithVariance s + (if st = StatusMatchedWithVariance then 1 else 0)"
  "Unsettled (countStatus s st) = Unsettled s + (if st = StatusUnsettled then 1 else 0)"
  "UnexpectedSettlements (countStatus s st)
     = UnexpectedSettlements s + (if st = StatusUnexpectedSettlement then 1 else 0)"
  "Duplicates (countStatus s st) = Duplicates s + (if st = StatusDuplicate then 1 else 0)"
  by (cases st; simp add: countStatus_def)+

lemma counters_addToSummary:
  "Matched (addToSummary s r) = Matched s + (if Status r = StatusMatched then 1 else 0)"
  "MatchedWithVariance (addToSummary s r)
     = MatchedWithVariance s + (if Status r = StatusMatchedWithVariance then 1 else 0)"
  "Unsettled (addToSummary s r) = Unsettled s + (if Status r = StatusUnsettled then 1 else 0)"
  "UnexpectedSettlements (addToSummary s r)
     = UnexpectedSettlements s + (if Status r = StatusUnexpectedSettlement then 1 else 0)"
  "Duplicates (addToSummary s r) = Duplicates s + (if Status r = StatusDuplicate then 1 else 0)"
  "ReconciliationRate (addToSummary s r) = ReconciliationRate s"
  by (simp_all add: addToSummary_def counters_countStatus)
     (cases "Status r"; simp add: countStatus_def)

lemma counters_foldl_aggregate:
  "Matched (Summary (foldl (aggregateResult cfg) rep rs))
     = Matched (Summary rep) + countOf StatusMatched rs"
  "MatchedWithVariance (Summary (foldl (aggregateResult cfg) rep rs))
     = MatchedWithVariance (Summary rep) + countOf StatusMatchedWithVariance rs"
  "Unsettled (Summary (foldl (aggregateResult cfg) rep rs))
     = Unsettled (Summary rep) + countOf StatusUnsettled rs"
  "UnexpectedSettlements (Summary (foldl (aggregateResult cfg) rep rs))
     = UnexpectedSettlements (Summary rep) + countOf StatusUnexpectedSettlement rs"
  "Duplicates (Summary (foldl (aggregateResult cfg) rep rs))
     = Duplicates (Summary rep) + countOf StatusDuplicate rs"
  "ReconciliationRate (Summary (foldl (aggregateResult cfg) rep rs))
     = ReconciliationRate (Summary rep)"
  by (induction rs arbitrary: rep; simp add: countOf_def counters_addToSummary)+

lemma counters_setRate:
  "Matched (Summary (setRate rep)) = Matched (Summary rep)"
  "MatchedWithVariance (Summary (setRate rep)) = MatchedWithVariance (Summary rep)"
  "Unsettled (Summary (setRate rep)) = Unsettled (Summary rep)"
  "UnexpectedSettlements (Summary (setRate rep)) = UnexpectedSettlements (Summary rep)"
  "Duplicates (Summary (setRate rep)) = Duplicates (Summary rep)"
  by (simp_all add: setRate_def)

lemma rate_setRate:
  assumes "ReconciliationRate (Summary rep) = 0"
  shows "ReconciliationRate (Summary (setRate rep))
         = rate_spec (Matched (Summary rep)) (MatchedWithVariance (Summary rep))
             (Unsettled (Summary rep)) (UnexpectedSettlements (Summary rep))
             (Duplicates (Summary rep))"
  using assms by (simp add: setRate_def rate_spec_def summaryTotal_def)

lemma Summary_buildReport:
  "buildReport cfg now runID txns setts rs report \<Longrightarrow>
   Summary report = Summary (buildReport_unsorted cfg now runID txns setts rs)"
  unfolding buildReport_def
  by (metis ReconciliationReport.select_convs(3) ReconciliationReport.surjective ReconciliationReport.update_convs(8))

lemma counters_unsorted:
  "Matched (Summary (buildReport_unsorted cfg now runID txns setts rs)) = countOf StatusMatched rs"
  "MatchedWithVariance (Summary (buildReport_unsorted cfg now runID txns setts rs))
     = countOf StatusMatchedWithVariance rs"
  "Unsettled (Summary (buildReport_unsorted cfg now runID txns setts rs)) = countOf StatusUnsettled rs"
  "UnexpectedSettlements (Summary (buildReport_unsorted cfg now runID txns setts rs))
     = countOf StatusUnexpectedSettlement rs"
  "Duplicates (Summary (buildReport_unsorted cfg now runID txns setts rs)) = countOf StatusDuplicate rs"
  by (simp_all add: buildReport_unsorted_def counters_setRate counters_foldl_aggregate emptySummary_def)

lemma rate_unsorted:
  "ReconciliationRate (Summary (buildReport_unsorted cfg now runID txns setts rs))
   = rate_spec (countOf StatusMatched rs) (countOf StatusMatchedWithVariance rs)
       (countOf StatusUnsettled rs) (countOf StatusUnexpectedSettlement rs)
       (countOf StatusDuplicate rs)"
  unfolding buildReport_unsorted_def
  by (subst rate_setRate) (simp_all add: counters_foldl_aggregate emptySummary_def)

subsection \<open>Result identifiers are injective in the counter\<close>

lemma digitVal_digitChar: "d < 10 \<Longrightarrow> digitVal (digitChar d) = d"
proof -
  assume "d < 10"
  then have "d \<in> {0, 1, 2, 3, 4, 5, 6, 7, 8, 9}" by auto
  then show ?thesis
    by (auto simp: digitVal_def digitChar_def)
qed

lemma decimalValue_snoc: "decimalValue (s @ [c]) = 10 * decimalValue s + digitVal c"
  by (simp add: decimalValue_def)

lemma decimalValue_decimal: "decimalValue (decimal n) = n"
proof (induction n rule: decimal.induct)
  case (1 n)
  show ?case
  proof (cases "n < 10")
    case True
    then show ?thesis
      by (subst decimal.simps) (simp add: decimalValue_def digitVal_digitChar)
  next
    case False
    with 1 have "decimalValue (decimal (n div 10)) = n div 10" by simp
    with False show ?thesis
      by (subst decimal.simps) (simp add: decimalValue_snoc digitVal_digitChar)
  qed
qed

lemma decimalValue_zeros: "decimalValue (replicate k (CHR ''0'') @ s) = decimalValue s"
proof -
  have "foldl (\<lambda>a c. 10 * a + digitVal c) 0 (replicate k (CHR ''0'')) = 0"
    by (induction k) (simp_all add: digitVal_def)
  then show ?thesis by (simp add: decimalValue_def)
qed

lemma decimalValue_pad04d: "decimalValue (pad04d n) = n"
  by (simp add: pad04d_def decimalValue_zeros decimalValue_decimal)

lemma pad04d_inj: "pad04d m = pad04d n \<Longrightarrow> m = n"
  by (metis decimalValue_pad04d)

lemma resultIDString_inj: "resultIDString runID m = resultIDString runID n \<longleftrightarrow> m = n"
  by (auto simp: resultIDString_def dest: pad04d_inj)

lemma distinct_resultIDStrings: "distinct (map (resultIDString runID) [1..<Suc k])"
  by (simp add: distinct_map inj_on_def resultIDString_inj)

subsection \<open>Fields of the four kinds of result\<close>

lemma duplicateResult_fields [simp]:
  "ID (duplicateResult key n txnOpt s rid) = rid"
  "Status (duplicateResult key n txnOpt s rid) = StatusDuplicate"
  "SettlementID (duplicateResult key n txnOpt s rid) = stl_ID s"
  "TransactionID (duplicateResult key n txnOpt s rid)
     = (case txnOpt of None \<Rightarrow> [] | Some txn \<Rightarrow> txn_ID txn)"
  by (simp_all add: duplicateResult_def Let_def split: option.splits)

lemma Status_classifyVariance:
  "fst (classifyVariance cfg txn s e v) = StatusMatched
   \<or> fst (classifyVariance cfg txn s e v) = StatusMatchedWithVariance"
  by (simp add: classifyVariance_def)

lemma matchedResult_fields [simp]:
  "ID (matchedResult cfg txn s rid) = rid"
  "SettlementID (matchedResult cfg txn s rid) = stl_ID s"
  "TransactionID (matchedResult cfg txn s rid) = txn_ID txn"
  "VarianceAmount (matchedResult cfg txn s rid)
     = stl_GrossAmount s - convertAmount cfg (txn_Amount txn) (txn_Currency txn) (stl_Currency s)"
  "ExpectedAmount (matchedResult cfg txn s rid)
     = convertAmount cfg (txn_Amount txn) (txn_Currency txn) (stl_Currency s)"
  by (simp_all add: matchedResult_def Let_def)

lemma Status_matchedResult:
  "Status (matchedResult cfg txn s rid) = StatusMatched
   \<or> Status (matchedResult cfg txn s rid) = StatusMatchedWithVariance"
  using Status_classifyVariance by (simp add: matchedResult_def Let_def)

lemma Status_matchedResult_neq [simp]:
  "Status (matchedResult cfg txn s rid) \<noteq> StatusUnsettled"
  "Status (matchedResult cfg txn s rid) \<noteq> StatusDuplicate"
  "Status (matchedResult cfg txn s rid) \<noteq> StatusUnexpectedSettlement"
  using Status_matchedResult [of cfg txn s rid] by auto

lemma unexpectedResult_fields [simp]:
  "ID (unexpectedResult s rid) = rid"
  "Status (unexpectedResult s rid) = StatusUnexpectedSettlement"
  "SettlementID (unexpectedResult s rid) = stl_ID s"
  "TransactionID (unexpectedResult s rid) = []"
  by (simp_all add: unexpectedResult_def)

lemma unsettledResult_fields [simp]:
  "ID (unsettledResult txn rid) = rid"
  "Status (unsettledResult txn rid) = StatusUnsettled"
  "SettlementID (unsettledResult txn rid) = []"
  "TransactionID (unsettledResult txn rid) = txn_ID txn"
  "VarianceAmount (unsettledResult txn rid) = 0"
  "DaysToSettle (unsettledResult txn rid) = None"
  by (simp_all add: unsettledResult_def)

subsection \<open>Invariants of the run state\<close>

lemma idsInOrder_phase1_settlement:
  "idsInOrder runID st \<Longrightarrow> idsInOrder runID (phase1_settlement runID key n txnOpt st s)"
  by (simp add: idsInOrder_def phase1_settlement_def)

lemma idsInOrder_phase1_key:
  assumes "idsInOrder runID st"
  shows "idsInOrder runID (phase1_key runID byKey byPK byOrder st key)"
proof (cases "byKey key")
  case None
  then show ?thesis using assms by (simp add: phase1_key_def)
next
  case (Some setts)
  have start: "idsInOrder runID (st\<lparr>duplicateKeys := insert key (duplicateKeys st)\<rparr>)"
    using assms by (simp add: idsInOrder_def)
  show ?thesis
    using Some assms
    by (auto simp: phase1_key_def intro!: foldl_invariant [where P = "idsInOrder runID"] start
        idsInOrder_phase1_settlement)
qed

lemma idsInOrder_phase2_settlement:
  assumes "idsInOrder runID st"
  shows "idsInOrder runID (phase2_settlement cfg runID byPK byOrder st s)"
  using assms
  by (simp add: idsInOrder_def phase2_settlement_def split: option.splits)

lemma idsInOrder_phase3_transaction:
  assumes "idsInOrder runID st"
  shows "idsInOrder runID (phase3_transaction runID st txn)"
  using assms
  by (simp add: idsInOrder_def phase3_transaction_def)

lemma idsInOrder_afterPhase3: "idsInOrder runID (afterPhase3 cfg keys runID txns setts)"
  unfolding afterPhase3_def afterPhase2_def afterPhase1_def
  by (intro foldl_invariant [where P = "idsInOrder runID"] idsInOrder_phase1_key
      idsInOrder_phase2_settlement idsInOrder_phase3_transaction)
     (simp add: idsInOrder_def initialState_def)

lemma runResults_ids:
  "map ID (runResults cfg keys runID txns setts)
   = map (resultIDString runID) [1..<Suc (length (runResults cfg keys runID txns setts))]"
proof -
  have "map (resultIDString runID) [1..<Suc n] = map (\<lambda>i. resultIDString runID (Suc i)) [0..<n]"
    for n
    by (simp add: map_Suc_upt [symmetric] del: upt_Suc)
  then show ?thesis
    using idsInOrder_afterPhase3 [of runID cfg keys txns setts]
    by (simp add: idsInOrder_def runResults_def del: upt_Suc)
qed

lemma runResults_distinct_ids: "distinct (map ID (runResults cfg keys runID txns setts))"
  by (subst runResults_ids) (rule distinct_resultIDStrings)

subsection \<open>Evaluating a run on concrete inputs\<close>

lemma replicate_numeral: "replicate (numeral k) x = x # replicate (pred_numeral k) x"
  by (simp add: numeral_eq_Suc)

lemma pad04d_small: "n < 10 \<Longrightarrow> pad04d n = ''000'' @ [digitChar n]"
  by (subst pad04d_def, subst (1 2) decimal.simps) (simp add: replicate_numeral)

lemma pad04d_two:
  assumes "10 \<le> n" and "n < 100"
  shows "pad04d n = ''00'' @ [digitChar (n div 10), digitChar (n mod 10)]"
proof -
  have "decimal n = decimal (n div 10) @ [digitChar (n mod 10)]"
    using assms(1) by (subst decimal.simps) simp
  moreover have "n div 10 < 10"
    using assms(2) by simp
  then have "decimal (n div 10) = [digitChar (n div 10)]"
    by (subst decimal.simps) simp
  ultimately show ?thesis
    by (simp add: pad04d_def replicate_numeral)
qed

lemmas run_eval =
  runResults_def afterPhase3_def afterPhase2_def afterPhase1_def DefaultConfig_def
  phase1_key_def phase1_settlement_def phase2_settlement_def phase3_transaction_def
  settlementsByKey_def groupAppend_def stlKey_def processorKey_def txnByOrderID_def
  txnByProcessorKey_def findTransaction_def initialState_def matchedResult_def
  unexpectedResult_def unsettledResult_def duplicateResult_def classifyVariance_def
  convertAmount_def daysBetween_def nanosPerDay_def resultIDString_def pad04d_small pad04d_two
  digitChar_def Let_def
  exTxn_def exStl_def exTxns_def exSetts_def exKeys_def

subsection \<open>Unsettled outcomes carry no variance; consumed transactions are referenced\<close>

lemma unsettledBare_phase1_settlement:
  "unsettledBare st \<Longrightarrow> unsettledBare (phase1_settlement runID key n txnOpt st s)"
  by (simp add: unsettledBare_def phase1_settlement_def)

lemma unsettledBare_phase1_key:
  assumes "unsettledBare st"
  shows "unsettledBare (phase1_key runID byKey byPK byOrder st key)"
proof (cases "byKey key")
  case None
  then show ?thesis using assms by (simp add: phase1_key_def)
next
  case (Some setts)
  have start: "unsettledBare (st\<lparr>duplicateKeys := insert key (duplicateKeys st)\<rparr>)"
    using assms by (simp add: unsettledBare_def)
  show ?thesis
    using Some assms
    by (auto simp: phase1_key_def intro!: foldl_invariant [where P = unsettledBare] start
        unsettledBare_phase1_settlement)
qed

lemma unsettledBare_phase2_settlement:
  "unsettledBare st \<Longrightarrow> unsettledBare (phase2_settlement cfg runID byPK byOrder st s)"
  by (simp add: unsettledBare_def phase2_settlement_def split: option.splits)

lemma unsettledBare_phase3_transaction:
  "unsettledBare st \<Longrightarrow> unsettledBare (phase3_transaction runID st txn)"
  by (simp add: unsettledBare_def phase3_transaction_def)

lemma unsettledBare_afterPhase3: "unsettledBare (afterPhase3 cfg keys runID txns setts)"
  unfolding afterPhase3_def afterPhase2_def afterPhase1_def
  by (intro foldl_invariant [where P = unsettledBare] unsettledBare_phase1_key
      unsettledBare_phase2_settlement unsettledBare_phase3_transaction)
     (simp add: unsettledBare_def initialState_def)

lemma runResults_unsettled:
  assumes "r \<in> set (runResults cfg keys runID txns setts)" and "Status r = StatusUnsettled"
  shows "VarianceAmount r = 0" and "DaysToSettle r = None"
  using unsettledBare_afterPhase3 [of cfg keys runID txns setts] assms
  by (auto simp: unsettledBare_def runResults_def)

lemma matchedCovered_phase1_settlement:
  "matchedCovered st \<Longrightarrow> matchedCovered (phase1_settlement runID key n txnOpt st s)"
  by (auto simp: matchedCovered_def phase1_settlement_def split: option.splits)

lemma matchedCovered_phase1_key:
  assumes "matchedCovered st"
  shows "matchedCovered (phase1_key runID byKey byPK byOrder st key)"
proof (cases "byKey key")
  case None
  then show ?thesis using assms by (simp add: phase1_key_def)
next
  case (Some setts)
  have start: "matchedCovered (st\<lparr>duplicateKeys := insert key (duplicateKeys st)\<rparr>)"
    using assms by (simp add: matchedCovered_def)
  show ?thesis
    using Some assms
    by (auto simp: phase1_key_def intro!: foldl_invariant [where P = matchedCovered] start
        matchedCovered_phase1_settlement)
qed

lemma matchedCovered_phase2_settlement:
  "matchedCovered st \<Longrightarrow> matchedCovered (phase2_settlement cfg runID byPK byOrder st s)"
  by (auto simp: matchedCovered_def phase2_settlement_def split: option.splits)

lemma matchedCovered_afterPhase2: "matchedCovered (afterPhase2 cfg keys runID txns setts)"
  unfolding afterPhase2_def afterPhase1_def
  by (intro foldl_invariant [where P = matchedCovered] matchedCovered_phase1_key
      matchedCovered_phase2_settlement)
     (simp add: matchedCovered_def initialState_def)

lemma phase3_covers:
  assumes "matchedCovered st"
  shows "matchedCovered (foldl (phase3_transaction runID) st txns)
         \<and> txn_ID ` set txns \<subseteq> TransactionID ` set (results (foldl (phase3_transaction runID) st txns))
         \<and> set (results st) \<subseteq> set (results (foldl (phase3_transaction runID) st txns))"
  using assms
proof (induction txns arbitrary: st)
  case Nil
  then show ?case by simp
next
  case (Cons t txns)
  let ?st = "phase3_transaction runID st t"
  have cov: "matchedCovered ?st"
    using Cons.prems by (auto simp: matchedCovered_def phase3_transaction_def)
  have here: "txn_ID t \<in> TransactionID ` set (results ?st)"
    using Cons.prems by (auto simp: matchedCovered_def phase3_transaction_def)
  have grow: "set (results st) \<subseteq> set (results ?st)"
    by (auto simp: phase3_transaction_def)
  from Cons.IH [OF cov] here grow show ?case
    by auto
qed

lemma runResults_covers_transactions:
  "txn_ID ` set txns \<subseteq> TransactionID ` set (runResults cfg keys runID txns setts)"
  using phase3_covers [OF matchedCovered_afterPhase2 [of cfg keys runID txns setts], of runID txns]
  by (simp add: runResults_def afterPhase3_def)

subsection \<open>The grouping of settlements by processor key\<close>

lemma foldl_groupAppend:
  "foldl groupAppend m ss k =
     (case m k of
        None \<Rightarrow> (if filter (\<lambda>s. stlKey s = k) ss = [] then None
                  else Some (filter (\<lambda>s. stlKey s = k) ss))
      | Some l \<Rightarrow> Some (l @ filter (\<lambda>s. stlKey s = k) ss))"
  by (induction ss arbitrary: m) (auto simp: groupAppend_def split: option.splits)

lemma settlementsByKey_lookup:
  "settlementsByKey ss k =
     (if filter (\<lambda>s. stlKey s = k) ss = [] then None
      else Some (filter (\<lambda>s. stlKey s = k) ss))"
  by (simp add: settlementsByKey_def foldl_groupAppend)

lemma dom_settlementsByKey: "dom (settlementsByKey ss) = stlKey ` set ss"
  by (auto simp: dom_def settlementsByKey_lookup filter_empty_conv)

subsection \<open>What a report of \<open>Run\<close> holds\<close>

lemma Run_Results:
  "Run cfg keys now runID txns setts report \<Longrightarrow>
   Results report = runResults cfg keys runID txns setts"
  unfolding Run_def by (blast dest: Results_buildReport)

lemma Run_HighPriority:
  assumes "Run cfg keys now runID txns setts report"
  shows "mset (HighPriority report) = mset (filter (highPriority_spec cfg) (Results report))"
    and "sorted_wrt (\<lambda>a b. \<bar>VarianceAmount b\<bar> \<le> \<bar>VarianceAmount a\<bar>) (HighPriority report)"
proof -
  let ?rs = "runResults cfg keys runID txns setts"
  have b: "buildReport cfg now runID txns setts ?rs report"
    using assms by (simp add: Run_def)
  have hp: "HighPriority (buildReport_unsorted cfg now runID txns setts ?rs)
            = filter (highPriority_spec cfg) ?rs"
    by (rule HighPriority_unsorted) (rule runResults_distinct_ids)
  from b hp show "mset (HighPriority report) = mset (filter (highPriority_spec cfg) (Results report))"
    by (simp add: buildReport_def sort_Slice_def Run_Results [OF assms])
  have "(\<lambda>a b. \<not> absVarianceGreater b a)
        = (\<lambda>a b. \<bar>VarianceAmount b\<bar> \<le> \<bar>VarianceAmount a\<bar>)"
    by (auto simp: absVarianceGreater_def fun_eq_iff)
  with b show "sorted_wrt (\<lambda>a b. \<bar>VarianceAmount b\<bar> \<le> \<bar>VarianceAmount a\<bar>) (HighPriority report)"
    by (simp add: buildReport_def sort_Slice_def)
qed

lemma Run_unsorted:
  assumes "rangeOrder keys (settlementsByKey setts)"
    and "sorted_wrt (\<lambda>a b. \<bar>VarianceAmount b\<bar> \<le> \<bar>VarianceAmount a\<bar>)
           (filter (highPriority_spec cfg) (runResults cfg keys runID txns setts))"
  shows "Run cfg keys now runID txns setts
           (buildReport_unsorted cfg now runID txns setts (runResults cfg keys runID txns setts))"
proof -
  let ?rs = "runResults cfg keys runID txns setts"
  have hp: "HighPriority (buildReport_unsorted cfg now runID txns setts ?rs)
            = filter (highPriority_spec cfg) ?rs"
    by (rule HighPriority_unsorted) (rule runResults_distinct_ids)
  have "(\<lambda>a b. \<not> absVarianceGreater b a)
        = (\<lambda>a b. \<bar>VarianceAmount b\<bar> \<le> \<bar>VarianceAmount a\<bar>)"
    by (auto simp: absVarianceGreater_def fun_eq_iff)
  then show ?thesis
    using assms by (simp add: Run_def buildReport_def sort_Slice_def hp)
qed

subsection \<open>The example store\<close>

lemma ex_rangeOrder: "rangeOrder exKeys (settlementsByKey exSetts)"
  by (auto simp: rangeOrder_def dom_settlementsByKey exKeys_def exSetts_def exStl_def
      stlKey_def processorKey_def)

lemma ex_results:
  "map Status (runResults DefaultConfig exKeys ''R'' exTxns exSetts)
     = [StatusDuplicate, StatusDuplicate, StatusUnexpectedSettlement,
        StatusMatchedWithVariance, StatusUnsettled]"
  "map ID (runResults DefaultConfig exKeys ''R'' exTxns exSetts)
     = [''RR-R-0001'', ''RR-R-0002'', ''RR-R-0003'', ''RR-R-0004'', ''RR-R-0005'']"
  "map VarianceAmount (runResults DefaultConfig exKeys ''R'' exTxns exSetts)
     = [- 800, - 800, 2000, - 2000, 0]"
  "map DaysToSettle (runResults DefaultConfig exKeys ''R'' exTxns exSetts)
     = [Some 2, Some 3, None, Some 10, None]"
  "map TransactionID (runResults DefaultConfig exKeys ''R'' exTxns exSetts)
     = [''T1'', ''T1'', [], ''T3'', ''T2'']"
  "map SettlementID (runResults DefaultConfig exKeys ''R'' exTxns exSetts)
     = [''S1'', ''S2'', ''S3'', ''S5'', []]"
  by (simp_all add: run_eval)

lemma ex_highPriority:
  "map ID (filter (highPriority_spec DefaultConfig)
     (runResults DefaultConfig exKeys ''R'' exTxns exSetts)) = [''RR-R-0003'', ''RR-R-0004'']"
  "map VarianceAmount (filter (highPriority_spec DefaultConfig)
     (runResults DefaultConfig exKeys ''R'' exTxns exSetts)) = [2000, - 2000]"
  by (simp_all add: run_eval highPriority_spec_def)

lemma ex_Run: "Run DefaultConfig exKeys 0 ''R'' exTxns exSetts exReport"
  unfolding exReport_def
proof (rule Run_unsorted [OF ex_rangeOrder])
  let ?hp = "filter (highPriority_spec DefaultConfig)
               (runResults DefaultConfig exKeys ''R'' exTxns exSetts)"
  have "sorted_wrt (\<lambda>a b. b \<le> a) (map abs (map VarianceAmount ?hp))"
    by (simp add: ex_highPriority)
  then show "sorted_wrt (\<lambda>a b. \<bar>VarianceAmount b\<bar> \<le> \<bar>VarianceAmount a\<bar>) ?hp"
    by (simp add: sorted_wrt_map)
qed

lemma ex_Report:
  "Results exReport = runResults DefaultConfig exKeys ''R'' exTxns exSetts"
  "HighPriority exReport
     = filter (highPriority_spec DefaultConfig) (runResults DefaultConfig exKeys ''R'' exTxns exSetts)"
  by (simp_all add: exReport_def HighPriority_unsorted runResults_distinct_ids)

subsection \<open>Classification of a matched pair\<close>

lemma matchedResult_Status:
  "Status (matchedResult cfg txn s rid)
   = fst (classifyVariance cfg txn s
            (convertAmount cfg (txn_Amount txn) (txn_Currency txn) (stl_Currency s))
            (stl_GrossAmount s
               - convertAmount cfg (txn_Amount txn) (txn_Currency txn) (stl_Currency s)))"
  by (simp add: matchedResult_def Let_def)

lemma matchedResult_Notes:
  "Notes (matchedResult cfg txn s rid)
   = snd (classifyVariance cfg txn s
            (convertAmount cfg (txn_Amount txn) (txn_Currency txn) (stl_Currency s))
            (stl_GrossAmount s
               - convertAmount cfg (txn_Amount txn) (txn_Currency txn) (stl_Currency s)))
     @ (if daysBetween (stl_SettledAt s) (txn_AuthorizedAt txn) > LateSettlementDays cfg
        then [NoteLate (daysBetween (stl_SettledAt s) (txn_AuthorizedAt txn))
                (LateSettlementDays cfg)]
        else [])"
  by (simp add: matchedResult_def Let_def)

subsection \<open>Every settlement is referenced by exactly one outcome\<close>

lemma settledIDs_simps [simp]:
  "settledIDs [] = []"
  "settledIDs (rs @ [r])
     = settledIDs rs @ (if Status r \<noteq> StatusUnsettled then [SettlementID r] else [])"
  by (simp_all add: settledIDs_def)

lemma phase1_settlements_effect:
  "settledIDs (results (foldl (phase1_settlement runID key n txnOpt) st ss))
     = settledIDs (results st) @ map stl_ID ss
   \<and> matchedSettlementIDs (foldl (phase1_settlement runID key n txnOpt) st ss)
     = matchedSettlementIDs st \<union> stl_ID ` set ss
   \<and> duplicateKeys (foldl (phase1_settlement runID key n txnOpt) st ss) = duplicateKeys st"
  by (induction ss arbitrary: st) (auto simp: phase1_settlement_def)

lemma phase1_key_effect:
  "settledIDs (results (phase1_key runID byKey byPK byOrder st key))
     = settledIDs (results st) @ map stl_ID (dupGroup byKey key)
   \<and> matchedSettlementIDs (phase1_key runID byKey byPK byOrder st key)
     = matchedSettlementIDs st \<union> stl_ID ` set (dupGroup byKey key)
   \<and> duplicateKeys (phase1_key runID byKey byPK byOrder st key)
     = duplicateKeys st \<union> (if dupGroup byKey key \<noteq> [] then {key} else {})"
  by (auto simp: phase1_key_def dupGroup_def phase1_settlements_effect split: option.splits)

lemma phase1_effect:
  "settledIDs (results (foldl (phase1_key runID byKey byPK byOrder) st keys))
     = settledIDs (results st) @ map stl_ID (dupGroups byKey keys)
   \<and> matchedSettlementIDs (foldl (phase1_key runID byKey byPK byOrder) st keys)
     = matchedSettlementIDs st \<union> stl_ID ` set (dupGroups byKey keys)
   \<and> duplicateKeys (foldl (phase1_key runID byKey byPK byOrder) st keys)
     = duplicateKeys st \<union> dupKeySet byKey keys"
proof (induction keys arbitrary: st)
  case Nil
  show ?case by (simp add: dupGroups_def dupKeySet_def)
next
  case (Cons k keys)
  show ?case
    using Cons.IH [of "phase1_key runID byKey byPK byOrder st k"]
      phase1_key_effect [of runID byKey byPK byOrder st k]
    by (auto simp: dupGroups_def dupKeySet_def)
qed

lemma phase2_settlement_effect:
  "duplicateKeys (phase2_settlement cfg runID byPK byOrder st s) = duplicateKeys st
   \<and> matchedSettlementIDs (phase2_settlement cfg runID byPK byOrder st s)
       \<subseteq> insert (stl_ID s) (matchedSettlementIDs st)
   \<and> (stl_ID s \<notin> matchedSettlementIDs st \<or> stlKey s \<in> duplicateKeys st \<longrightarrow>
        settledIDs (results (phase2_settlement cfg runID byPK byOrder st s))
          = settledIDs (results st) @ (if stlKey s \<in> duplicateKeys st then [] else [stl_ID s]))"
  by (auto simp: phase2_settlement_def split: option.splits)

lemma phase2_effect:
  assumes "distinct (map stl_ID ss)"
    and "\<forall>s \<in> set ss. stlKey s \<notin> duplicateKeys st \<longrightarrow> stl_ID s \<notin> matchedSettlementIDs st"
  shows "settledIDs (results (foldl (phase2_settlement cfg runID byPK byOrder) st ss))
         = settledIDs (results st) @ map stl_ID (filter (\<lambda>s. stlKey s \<notin> duplicateKeys st) ss)"
  using assms
proof (induction ss arbitrary: st)
  case Nil
  show ?case by simp
next
  case (Cons s ss)
  let ?st = "phase2_settlement cfg runID byPK byOrder st s"
  note eff = phase2_settlement_effect [of cfg runID byPK byOrder st s]
  have d: "duplicateKeys ?st = duplicateKeys st" using eff by blast
  have here: "settledIDs (results ?st)
              = settledIDs (results st) @ (if stlKey s \<in> duplicateKeys st then [] else [stl_ID s])"
    using eff Cons.prems(2) by auto
  have "distinct (map stl_ID ss)" using Cons.prems(1) by simp
  moreover have "\<forall>s' \<in> set ss. stlKey s' \<notin> duplicateKeys ?st \<longrightarrow> stl_ID s' \<notin> matchedSettlementIDs ?st"
  proof (intro ballI impI)
    fix s' assume s': "s' \<in> set ss" and k: "stlKey s' \<notin> duplicateKeys ?st"
    have "stl_ID s' \<noteq> stl_ID s" using Cons.prems(1) s' by (metis distinct.simps(2) imageI list.simps(9) set_map)
    moreover have "stl_ID s' \<notin> matchedSettlementIDs st"
      using Cons.prems(2) s' k d by auto
    ultimately show "stl_ID s' \<notin> matchedSettlementIDs ?st"
      using eff by auto
  qed
  ultimately have "settledIDs (results (foldl (phase2_settlement cfg runID byPK byOrder) ?st ss))
         = settledIDs (results ?st) @ map stl_ID (filter (\<lambda>s. stlKey s \<notin> duplicateKeys ?st) ss)"
    by (rule Cons.IH)
  then show ?case
    by (simp add: here d)
qed

lemma phase3_effect:
  "settledIDs (results (foldl (phase3_transaction runID) st txns)) = settledIDs (results st)"
  by (induction txns arbitrary: st) (simp_all add: phase3_transaction_def)

lemma dupGroup_settlementsByKey:
  "dupGroup (settlementsByKey setts) k = filter (\<lambda>s. stlKey s = k \<and> isDup setts s) setts"
proof (cases "length (filter (\<lambda>s. stlKey s = k) setts) > 1")
  case True
  then have "filter (\<lambda>s. stlKey s = k \<and> isDup setts s) setts = filter (\<lambda>s. stlKey s = k) setts"
    by (intro filter_cong) (auto simp: isDup_def)
  with True show ?thesis
    by (auto simp: dupGroup_def settlementsByKey_lookup)
next
  case False
  then have "filter (\<lambda>s. stlKey s = k \<and> isDup setts s) setts = []"
    by (auto simp: filter_empty_conv isDup_def)
  with False show ?thesis
    by (auto simp: dupGroup_def settlementsByKey_lookup)
qed

lemma mset_filter_by_keys:
  assumes "distinct ks"
  shows "mset (concat (map (\<lambda>k. filter (\<lambda>s. f s = k \<and> P s) xs) ks))
         = mset (filter (\<lambda>s. f s \<in> set ks \<and> P s) xs)"
  using assms
proof (induction ks)
  case Nil
  show ?case by simp
next
  case (Cons k ks)
  have "mset (filter (\<lambda>s. f s = k \<and> P s) xs) + mset (filter (\<lambda>s. f s \<in> set ks \<and> P s) xs)
        = mset (filter (\<lambda>s. f s \<in> set (k # ks) \<and> P s) xs)"
    using Cons.prems by (induction xs) auto
  with Cons show ?case by simp
qed

lemma mset_dupGroups:
  assumes "rangeOrder keys (settlementsByKey setts)"
  shows "mset (dupGroups (settlementsByKey setts) keys) = mset (filter (isDup setts) setts)"
proof -
  have d: "distinct keys" and k: "set keys = stlKey ` set setts"
    using assms by (simp_all add: rangeOrder_def dom_settlementsByKey)
  have "filter (\<lambda>s. stlKey s \<in> set keys \<and> isDup setts s) setts = filter (isDup setts) setts"
    by (intro filter_cong) (auto simp: k)
  moreover have "dupGroup (settlementsByKey setts)
                 = (\<lambda>k. filter (\<lambda>s. stlKey s = k \<and> isDup setts s) setts)"
    by (rule ext) (rule dupGroup_settlementsByKey)
  ultimately show ?thesis
    using mset_filter_by_keys [OF d, of stlKey "isDup setts" setts]
    by (simp add: dupGroups_def)
qed

lemma dupKeySet_iff:
  assumes "rangeOrder keys (settlementsByKey setts)" and "s \<in> set setts"
  shows "stlKey s \<in> dupKeySet (settlementsByKey setts) keys \<longleftrightarrow> isDup setts s"
proof -
  have k: "stlKey s \<in> set keys"
    using assms by (auto simp: rangeOrder_def dom_settlementsByKey)
  have "dupGroup (settlementsByKey setts) (stlKey s) \<noteq> [] \<longleftrightarrow> isDup setts s"
    using assms(2) by (auto simp: dupGroup_settlementsByKey filter_empty_conv isDup_def)
  with k show ?thesis by (simp add: dupKeySet_def)
qed

lemma runResults_settledIDs:
  assumes ro: "rangeOrder keys (settlementsByKey setts)"
    and dist: "distinct (map stl_ID setts)"
  shows "mset (settledIDs (runResults cfg keys runID txns setts)) = mset (map stl_ID setts)"
proof -
  let ?byKey = "settlementsByKey setts"
  let ?st1 = "afterPhase1 keys runID txns setts"
  have p1: "settledIDs (results ?st1) = map stl_ID (dupGroups ?byKey keys)"
    and m1: "matchedSettlementIDs ?st1 = stl_ID ` set (dupGroups ?byKey keys)"
    and d1: "duplicateKeys ?st1 = dupKeySet ?byKey keys"
    using phase1_effect [of runID ?byKey "txnByProcessorKey txns" "txnByOrderID txns" initialState keys]
    by (simp_all add: afterPhase1_def initialState_def)
  have dups: "set (dupGroups ?byKey keys) = {s \<in> set setts. isDup setts s}"
    using mset_eq_setD [OF mset_dupGroups [OF ro]] by simp
  have inj: "inj_on stl_ID (set setts)"
    using dist by (simp add: distinct_map)
  have pre: "\<forall>s \<in> set setts. stlKey s \<notin> duplicateKeys ?st1 \<longrightarrow> stl_ID s \<notin> matchedSettlementIDs ?st1"
  proof (intro ballI impI notI)
    fix s assume s: "s \<in> set setts" and nd: "stlKey s \<notin> duplicateKeys ?st1"
      and "stl_ID s \<in> matchedSettlementIDs ?st1"
    then obtain s' where s': "s' \<in> set setts" "isDup setts s'" "stl_ID s' = stl_ID s"
      by (auto simp: m1 dups)
    then have "s' = s" using inj s by (auto dest: inj_onD)
    with s' have "isDup setts s" by simp
    with nd show False
      by (simp add: d1 dupKeySet_iff [OF ro s])
  qed
  have "filter (\<lambda>s. stlKey s \<notin> duplicateKeys ?st1) setts = filter (\<lambda>s. \<not> isDup setts s) setts"
    by (intro filter_cong) (auto simp: d1 dupKeySet_iff [OF ro])
  then have p2: "settledIDs (results (afterPhase2 cfg keys runID txns setts))
        = map stl_ID (dupGroups ?byKey keys) @ map stl_ID (filter (\<lambda>s. \<not> isDup setts s) setts)"
    using phase2_effect [OF dist pre, of cfg runID "txnByProcessorKey txns" "txnByOrderID txns"]
    by (simp add: afterPhase2_def p1)
  have "settledIDs (runResults cfg keys runID txns setts)
        = map stl_ID (dupGroups ?byKey keys) @ map stl_ID (filter (\<lambda>s. \<not> isDup setts s) setts)"
    by (simp add: runResults_def afterPhase3_def phase3_effect p2)
  then have "mset (settledIDs (runResults cfg keys runID txns setts))
        = image_mset stl_ID (mset (dupGroups ?byKey keys))
          + image_mset stl_ID (mset (filter (\<lambda>s. \<not> isDup setts s) setts))"
    by simp
  also have "\<dots> = image_mset stl_ID
                      (mset (filter (isDup setts) setts)
                       + mset (filter (\<lambda>s. \<not> isDup setts s) setts))"
    by (simp only: mset_dupGroups [OF ro] image_mset_union)
  also have "mset (filter (isDup setts) setts) + mset (filter (\<lambda>s. \<not> isDup setts s) setts)
             = mset setts"
    by (induction setts) auto
  finally show ?thesis
    by simp
qed

subsection \<open>Where the matched outcomes of a run come from\<close>

lemma matchesFromPhase2_phase1_settlement:
  "matchesFromPhase2 cfg txns setts st \<Longrightarrow>
   matchesFromPhase2 cfg txns setts (phase1_settlement runID key n txnOpt st s)"
  by (simp add: matchesFromPhase2_def phase1_settlement_def)

lemma matchesFromPhase2_phase1_key:
  assumes "matchesFromPhase2 cfg txns setts st"
  shows "matchesFromPhase2 cfg txns setts (phase1_key runID byKey byPK byOrder st key)"
proof (cases "byKey key")
  case None
  then show ?thesis using assms by (simp add: phase1_key_def)
next
  case (Some ss)
  have start: "matchesFromPhase2 cfg txns setts (st\<lparr>duplicateKeys := insert key (duplicateKeys st)\<rparr>)"
    using assms by (simp add: matchesFromPhase2_def)
  show ?thesis
    using Some assms
    by (auto simp: phase1_key_def
        intro!: foldl_invariant [where P = "matchesFromPhase2 cfg txns setts"] start
        matchesFromPhase2_phase1_settlement)
qed

lemma matchesFromPhase2_phase2_settlement:
  assumes "matchesFromPhase2 cfg txns setts st" and "s \<in> set setts"
  shows "matchesFromPhase2 cfg txns setts
           (phase2_settlement cfg runID (txnByProcessorKey txns) (txnByOrderID txns) st s)"
proof -
  have "fromPhase2 cfg txns setts (matchedResult cfg txn s rid)"
    if "findTransaction (stlKey s) (stl_OrderReference s) (txnByProcessorKey txns)
          (txnByOrderID txns) = Some txn" for txn rid
    unfolding fromPhase2_def using that assms(2) by (intro exI [of _ txn] exI [of _ s]) simp
  then show ?thesis
    using assms(1)
    by (auto simp: matchesFromPhase2_def phase2_settlement_def split: option.splits)
qed

lemma matchesFromPhase2_phase3_transaction:
  "matchesFromPhase2 cfg txns setts st \<Longrightarrow>
   matchesFromPhase2 cfg txns setts (phase3_transaction runID st txn)"
  by (simp add: matchesFromPhase2_def phase3_transaction_def)

lemma runResults_matched:
  assumes "r \<in> set (runResults cfg keys runID txns setts)"
    and "Status r = StatusMatched \<or> Status r = StatusMatchedWithVariance"
  shows "fromPhase2 cfg txns setts r"
proof -
  have "matchesFromPhase2 cfg txns setts (afterPhase3 cfg keys runID txns setts)"
    unfolding afterPhase3_def afterPhase2_def afterPhase1_def
    by (intro foldl_invariant [where P = "matchesFromPhase2 cfg txns setts"]
        matchesFromPhase2_phase1_key matchesFromPhase2_phase2_settlement
        matchesFromPhase2_phase3_transaction)
       (simp_all add: matchesFromPhase2_def initialState_def)
  with assms show ?thesis
    by (auto simp: matchesFromPhase2_def runResults_def)
qed

subsection \<open>A run always returns a report\<close>

lemma Run_total: "\<exists>keys report. Run cfg keys now runID txns setts report"
proof -
  obtain keys where keys: "set keys = dom (settlementsByKey setts)" "distinct keys"
    using finite_distinct_list [of "dom (settlementsByKey setts)"]
    by (auto simp: dom_settlementsByKey)
  let ?rs = "runResults cfg keys runID txns setts"
  let ?pre = "buildReport_unsorted cfg now runID txns setts ?rs"
  let ?hp = "sort_key (\<lambda>r. - \<bar>VarianceAmount r\<bar>) (HighPriority ?pre)"
  have "sorted (map (\<lambda>r. - \<bar>VarianceAmount r\<bar>) ?hp)"
    by (rule sorted_sort_key)
  then have "sorted_wrt (\<lambda>a b. \<not> absVarianceGreater b a) ?hp"
    by (simp add: sorted_map absVarianceGreater_def not_less)
  then have "buildReport cfg now runID txns setts ?rs (?pre\<lparr>HighPriority := ?hp\<rparr>)"
    by (simp add: buildReport_def sort_Slice_def)
  with keys have "Run cfg keys now runID txns setts (?pre\<lparr>HighPriority := ?hp\<rparr>)"
    by (simp add: Run_def rangeOrder_def)
  then show ?thesis by blast
qed

subsection \<open>Rearranging a list by positions\<close>

lemma mset_map_nth:
  assumes "mset p = mset [0..<length xs]"
  shows "mset (map ((!) xs) p) = mset xs"
proof -
  have "mset (map ((!) xs) p) = image_mset ((!) xs) (mset p)" by simp
  also have "\<dots> = mset (map ((!) xs) [0..<length xs])" by (simp add: assms)
  finally show ?thesis by (simp add: map_nth)
qed

lemma map_map_nth:
  "\<forall>i \<in> set p. i < length xs \<Longrightarrow> map f (map ((!) xs) p) = map ((!) (map f xs)) p"
  by simp

subsection \<open>What each phase appends\<close>

lemma settledKeys_simps [simp]:
  "settledKeys [] = []"
  "settledKeys (rs @ [r])
     = settledKeys rs @ (if Status r \<noteq> StatusUnsettled then [outcomeKey r] else [])"
  by (simp_all add: settledKeys_def)

lemma unsettledIDs_simps [simp]:
  "unsettledIDs [] = []"
  "unsettledIDs (rs @ [r])
     = unsettledIDs rs @ (if Status r = StatusUnsettled then [TransactionID r] else [])"
  by (simp_all add: unsettledIDs_def)

lemma matchedResult_Status_rid:
  "Status (matchedResult cfg txn s rid) = matchStatus cfg txn s"
  by (simp add: matchStatus_def matchedResult_Status)

lemma matchStatus_neq [simp]:
  "matchStatus cfg txn s \<noteq> StatusUnsettled"
  "matchStatus cfg txn s \<noteq> StatusDuplicate"
  "matchStatus cfg txn s \<noteq> StatusUnexpectedSettlement"
  by (simp_all add: matchStatus_def)

lemma phase1_settlements_outcomes:
  "settledKeys (results (foldl (phase1_settlement runID key n txnOpt) st ss))
     = settledKeys (results st) @ map (\<lambda>s. (stl_ID s, StatusDuplicate, optID txnOpt)) ss
   \<and> unsettledIDs (results (foldl (phase1_settlement runID key n txnOpt) st ss))
     = unsettledIDs (results st)
   \<and> matchedTxnIDs (foldl (phase1_settlement runID key n txnOpt) st ss)
     = matchedTxnIDs st \<union> (if ss = [] then {} else set (optIDs txnOpt))"
  by (induction ss arbitrary: st)
     (auto simp: phase1_settlement_def outcomeKey_def optID_def optIDs_def split: option.splits)

lemma phase1_key_outcomes:
  "settledKeys (results (phase1_key runID byKey byPK byOrder st key))
     = settledKeys (results st)
       @ map (\<lambda>s. (stl_ID s, StatusDuplicate, optID (dupTxn byKey byPK byOrder key)))
           (dupGroup byKey key)
   \<and> unsettledIDs (results (phase1_key runID byKey byPK byOrder st key))
     = unsettledIDs (results st)
   \<and> matchedTxnIDs (phase1_key runID byKey byPK byOrder st key)
     = matchedTxnIDs st
       \<union> (if dupGroup byKey key = [] then {} else set (optIDs (dupTxn byKey byPK byOrder key)))"
proof (cases "dupGroup byKey key = []")
  case True
  then show ?thesis
    by (auto simp: phase1_key_def dupGroup_def split: option.splits if_splits)
next
  case False
  then obtain ss where ss: "byKey key = Some ss" "length ss > 1" "dupGroup byKey key = ss"
    by (auto simp: dupGroup_def split: option.splits if_splits)
  then have ne: "ss \<noteq> []" by auto
  show ?thesis
    using phase1_settlements_outcomes
      [of runID key "length ss" "findTransaction key (stl_OrderReference (hd ss)) byPK byOrder"
        "st\<lparr>duplicateKeys := insert key (duplicateKeys st)\<rparr>" ss] ss(2)
    by (simp add: phase1_key_def ss(1,3) dupTxn_def ne)
qed

lemma phase1_outcomes:
  "settledKeys (results (foldl (phase1_key runID byKey byPK byOrder) st keys))
     = settledKeys (results st)
       @ concat (map (\<lambda>k. map (\<lambda>s. (stl_ID s, StatusDuplicate, optID (dupTxn byKey byPK byOrder k)))
                        (dupGroup byKey k)) keys)
   \<and> unsettledIDs (results (foldl (phase1_key runID byKey byPK byOrder) st keys))
     = unsettledIDs (results st)
   \<and> matchedTxnIDs (foldl (phase1_key runID byKey byPK byOrder) st keys)
     = matchedTxnIDs st
       \<union> (\<Union>k \<in> set keys. if dupGroup byKey k = [] then {}
                            else set (optIDs (dupTxn byKey byPK byOrder k)))"
proof (induction keys arbitrary: st)
  case Nil
  show ?case by simp
next
  case (Cons k keys)
  show ?case
    using Cons.IH [of "phase1_key runID byKey byPK byOrder st k"]
      phase1_key_outcomes [of runID byKey byPK byOrder st k]
    by auto
qed

lemma phase2_settlement_outcomes:
  assumes "stl_ID s \<notin> matchedSettlementIDs st \<or> stlKey s \<in> duplicateKeys st"
  shows "settledKeys (results (phase2_settlement cfg runID byPK byOrder st s))
     = settledKeys (results st)
       @ (if stlKey s \<in> duplicateKeys st then [] else [phase2Outcome cfg byPK byOrder s])
   \<and> unsettledIDs (results (phase2_settlement cfg runID byPK byOrder st s))
     = unsettledIDs (results st)
   \<and> matchedTxnIDs (phase2_settlement cfg runID byPK byOrder st s)
     = matchedTxnIDs st
       \<union> (if stlKey s \<in> duplicateKeys st then {} else set (optIDs (phase2Txn byPK byOrder s)))"
  using assms
  by (auto simp: phase2_settlement_def phase2Outcome_def phase2Txn_def outcomeKey_def optID_def
      optIDs_def matchedResult_Status_rid split: option.splits)

lemma phase2_outcomes:
  assumes "distinct (map stl_ID ss)"
    and "\<forall>s \<in> set ss. stlKey s \<notin> duplicateKeys st \<longrightarrow> stl_ID s \<notin> matchedSettlementIDs st"
  shows "settledKeys (results (foldl (phase2_settlement cfg runID byPK byOrder) st ss))
         = settledKeys (results st)
           @ map (phase2Outcome cfg byPK byOrder) (filter (\<lambda>s. stlKey s \<notin> duplicateKeys st) ss)
       \<and> unsettledIDs (results (foldl (phase2_settlement cfg runID byPK byOrder) st ss))
         = unsettledIDs (results st)
       \<and> matchedTxnIDs (foldl (phase2_settlement cfg runID byPK byOrder) st ss)
         = matchedTxnIDs st
           \<union> set (concat (map (\<lambda>s. optIDs (phase2Txn byPK byOrder s))
                             (filter (\<lambda>s. stlKey s \<notin> duplicateKeys st) ss)))"
  using assms
proof (induction ss arbitrary: st)
  case Nil
  show ?case by simp
next
  case (Cons s ss)
  let ?st = "phase2_settlement cfg runID byPK byOrder st s"
  note eff = phase2_settlement_effect [of cfg runID byPK byOrder st s]
  have d: "duplicateKeys ?st = duplicateKeys st" using eff by blast
  have pre: "stl_ID s \<notin> matchedSettlementIDs st \<or> stlKey s \<in> duplicateKeys st"
    using Cons.prems(2) by auto
  note here = phase2_settlement_outcomes [OF pre, of cfg runID byPK byOrder]
  have "distinct (map stl_ID ss)" using Cons.prems(1) by simp
  moreover have "\<forall>s' \<in> set ss. stlKey s' \<notin> duplicateKeys ?st \<longrightarrow> stl_ID s' \<notin> matchedSettlementIDs ?st"
  proof (intro ballI impI)
    fix s' assume s': "s' \<in> set ss" and k: "stlKey s' \<notin> duplicateKeys ?st"
    have "stl_ID s' \<noteq> stl_ID s"
      using Cons.prems(1) s' by (metis distinct.simps(2) imageI list.simps(9) set_map)
    moreover have "stl_ID s' \<notin> matchedSettlementIDs st"
      using Cons.prems(2) s' k d by auto
    ultimately show "stl_ID s' \<notin> matchedSettlementIDs ?st"
      using eff by auto
  qed
  ultimately show ?case
    using Cons.IH [of ?st] here by (auto simp: d)
qed

lemma phase3_outcomes:
  "settledKeys (results (foldl (phase3_transaction runID) st txns)) = settledKeys (results st)
   \<and> unsettledIDs (results (foldl (phase3_transaction runID) st txns))
     = unsettledIDs (results st)
       @ map txn_ID (filter (\<lambda>t. txn_ID t \<notin> matchedTxnIDs st) txns)"
proof (induction txns arbitrary: st)
  case Nil
  show ?case by simp
next
  case (Cons t txns)
  have m: "matchedTxnIDs (phase3_transaction runID st t) = matchedTxnIDs st"
    by (simp add: phase3_transaction_def)
  show ?case
    using Cons.IH [of "phase3_transaction runID st t"]
    by (simp add: m) (simp add: phase3_transaction_def)
qed

subsection \<open>The outcomes of a run, settlement by settlement and transaction by transaction\<close>

lemma in_dupGroup:
  "s \<in> set (dupGroup (settlementsByKey setts) k)
   \<longleftrightarrow> s \<in> set setts \<and> stlKey s = k \<and> isDup setts s"
  by (auto simp: dupGroup_settlementsByKey)

lemma dupGroup_nonempty:
  assumes "dupGroup (settlementsByKey setts) k \<noteq> []"
  shows "dupGroup (settlementsByKey setts) k = filter (\<lambda>s. stlKey s = k) setts"
  using assms by (auto simp: dupGroup_def settlementsByKey_lookup split: if_splits)

lemma dupTxn_resolved:
  assumes "s \<in> set setts" and "isDup setts s"
  shows "dupTxn (settlementsByKey setts) (txnByProcessorKey txns) (txnByOrderID txns) (stlKey s)
         = resolvedTransaction txns setts s"
proof -
  have "s \<in> set (dupGroup (settlementsByKey setts) (stlKey s))"
    using assms by (simp add: in_dupGroup)
  then have "dupGroup (settlementsByKey setts) (stlKey s) \<noteq> []" by auto
  then have "dupGroup (settlementsByKey setts) (stlKey s)
             = filter (\<lambda>s'. stlKey s' = stlKey s) setts"
    by (rule dupGroup_nonempty)
  then show ?thesis
    using assms(2) by (simp add: dupTxn_def resolvedTransaction_def)
qed

lemma phase2Txn_resolved:
  "\<not> isDup setts s \<Longrightarrow>
   phase2Txn (txnByProcessorKey txns) (txnByOrderID txns) s = resolvedTransaction txns setts s"
  by (simp add: phase2Txn_def resolvedTransaction_def)

lemma duplicate_outcome:
  assumes "s \<in> set (dupGroup (settlementsByKey setts) k)"
  shows "(stl_ID s, StatusDuplicate,
          optID (dupTxn (settlementsByKey setts) (txnByProcessorKey txns) (txnByOrderID txns) k))
         = settlementOutcome cfg txns setts s"
proof -
  from assms have s: "s \<in> set setts" "stlKey s = k" "isDup setts s"
    by (simp_all add: in_dupGroup)
  show ?thesis
    using dupTxn_resolved [OF s(1,3), of txns] s
    by (simp add: settlementOutcome_def settlementStatus_def)
qed

lemma phase2_outcome:
  "\<not> isDup setts s \<Longrightarrow>
   phase2Outcome cfg (txnByProcessorKey txns) (txnByOrderID txns) s
   = settlementOutcome cfg txns setts s"
  by (simp add: phase2Outcome_def settlementOutcome_def settlementStatus_def phase2Txn_resolved)

lemma run_outcomes:
  assumes ro: "rangeOrder keys (settlementsByKey setts)"
    and dist: "distinct (map stl_ID setts)"
  shows "mset (settledKeys (runResults cfg keys runID txns setts))
         = mset (map (settlementOutcome cfg txns setts) setts)"
    and "unsettledIDs (runResults cfg keys runID txns setts)
         = map txn_ID (filter (\<lambda>t. txn_ID t \<notin> set (resolvedIDList txns setts)) txns)"
proof -
  let ?byKey = "settlementsByKey setts"
  let ?byPK = "txnByProcessorKey txns"
  let ?byOrder = "txnByOrderID txns"
  let ?so = "settlementOutcome cfg txns setts"
  let ?st1 = "afterPhase1 keys runID txns setts"
  let ?st2 = "afterPhase2 cfg keys runID txns setts"
  have k: "set keys = stlKey ` set setts"
    using ro by (simp add: rangeOrder_def dom_settlementsByKey)
  note p1 = phase1_outcomes [of runID ?byKey ?byPK ?byOrder initialState keys]
  have eqf: "(\<lambda>k. map (\<lambda>s. (stl_ID s, StatusDuplicate, optID (dupTxn ?byKey ?byPK ?byOrder k)))
                    (dupGroup ?byKey k))
             = (\<lambda>k. map ?so (dupGroup ?byKey k))"
    by (intro ext map_cong refl duplicate_outcome)
  have "settledKeys (results ?st1)
        = concat (map (\<lambda>k. map (\<lambda>s. (stl_ID s, StatusDuplicate,
                                        optID (dupTxn ?byKey ?byPK ?byOrder k)))
                             (dupGroup ?byKey k)) keys)"
    using p1 by (simp add: afterPhase1_def initialState_def)
  also have "\<dots> = concat (map (\<lambda>k. map ?so (dupGroup ?byKey k)) keys)"
    by (simp only: eqf)
  also have "\<dots> = map ?so (dupGroups ?byKey keys)"
    by (simp add: dupGroups_def map_concat comp_def)
  finally have k1: "settledKeys (results ?st1) = map ?so (dupGroups ?byKey keys)" .
  have u1: "unsettledIDs (results ?st1) = []"
    using p1 by (simp add: afterPhase1_def initialState_def)
  have "(\<Union>k \<in> set keys. if dupGroup ?byKey k = [] then {}
                          else set (optIDs (dupTxn ?byKey ?byPK ?byOrder k)))
        = (\<Union>s \<in> {s \<in> set setts. isDup setts s}. set (optIDs (resolvedTransaction txns setts s)))"
    (is "?L = ?R")
  proof (intro set_eqI iffI)
    fix x assume "x \<in> ?L"
    then obtain k where kk: "k \<in> set keys" "dupGroup ?byKey k \<noteq> []"
      "x \<in> set (optIDs (dupTxn ?byKey ?byPK ?byOrder k))"
      by (auto split: if_splits)
    then obtain s where s: "s \<in> set (dupGroup ?byKey k)"
      by (cases "dupGroup ?byKey k") auto
    then have s': "s \<in> set setts" "stlKey s = k" "isDup setts s"
      by (simp_all add: in_dupGroup)
    with kk(3) dupTxn_resolved [OF s'(1,3), of txns] show "x \<in> ?R" by auto
  next
    fix x assume "x \<in> ?R"
    then obtain s where s: "s \<in> set setts" "isDup setts s"
      "x \<in> set (optIDs (resolvedTransaction txns setts s))" by auto
    have a: "stlKey s \<in> set keys" using s(1) k by auto
    have "dupGroup ?byKey (stlKey s) \<noteq> []"
      using in_dupGroup [of s setts "stlKey s"] s by auto
    then have "x \<in> (if dupGroup ?byKey (stlKey s) = [] then {}
                    else set (optIDs (dupTxn ?byKey ?byPK ?byOrder (stlKey s))))"
      using s(3) dupTxn_resolved [OF s(1,2), of txns] by simp
    with a show "x \<in> ?L" by blast
  qed
  then have m1: "matchedTxnIDs ?st1
        = (\<Union>s \<in> {s \<in> set setts. isDup setts s}. set (optIDs (resolvedTransaction txns setts s)))"
    using p1 by (simp add: afterPhase1_def initialState_def)
  have ms1: "matchedSettlementIDs ?st1 = stl_ID ` set (dupGroups ?byKey keys)"
    and d1: "duplicateKeys ?st1 = dupKeySet ?byKey keys"
    using phase1_effect [of runID ?byKey ?byPK ?byOrder initialState keys]
    by (simp_all add: afterPhase1_def initialState_def)
  have dups: "set (dupGroups ?byKey keys) = {s \<in> set setts. isDup setts s}"
    using mset_eq_setD [OF mset_dupGroups [OF ro]] by simp
  have inj: "inj_on stl_ID (set setts)"
    using dist by (simp add: distinct_map)
  have pre: "\<forall>s \<in> set setts. stlKey s \<notin> duplicateKeys ?st1 \<longrightarrow> stl_ID s \<notin> matchedSettlementIDs ?st1"
  proof (intro ballI impI notI)
    fix s assume s: "s \<in> set setts" and nd: "stlKey s \<notin> duplicateKeys ?st1"
      and "stl_ID s \<in> matchedSettlementIDs ?st1"
    then obtain s' where s': "s' \<in> set setts" "isDup setts s'" "stl_ID s' = stl_ID s"
      by (auto simp: ms1 dups)
    then have "s' = s" using inj s by (auto dest: inj_onD)
    with s' have "isDup setts s" by simp
    with nd show False
      by (simp add: d1 dupKeySet_iff [OF ro s])
  qed
  have f: "filter (\<lambda>s. stlKey s \<notin> duplicateKeys ?st1) setts = filter (\<lambda>s. \<not> isDup setts s) setts"
    by (intro filter_cong) (auto simp: d1 dupKeySet_iff [OF ro])
  note p2 = phase2_outcomes [OF dist pre, of cfg runID ?byPK ?byOrder]
  have eq2: "map (phase2Outcome cfg ?byPK ?byOrder) (filter (\<lambda>s. \<not> isDup setts s) setts)
        = map ?so (filter (\<lambda>s. \<not> isDup setts s) setts)"
    by (rule map_cong [OF refl]) (simp add: phase2_outcome)
  have "settledKeys (results ?st2)
        = settledKeys (results ?st1)
          @ map (phase2Outcome cfg ?byPK ?byOrder) (filter (\<lambda>s. \<not> isDup setts s) setts)"
    using p2 by (simp add: afterPhase2_def f)
  then have k2: "settledKeys (results ?st2)
        = map ?so (dupGroups ?byKey keys) @ map ?so (filter (\<lambda>s. \<not> isDup setts s) setts)"
    by (simp only: eq2 k1)
  have u2: "unsettledIDs (results ?st2) = []"
    using p2 by (simp add: afterPhase2_def u1)
  have "set (concat (map (\<lambda>s. optIDs (phase2Txn ?byPK ?byOrder s))
                       (filter (\<lambda>s. \<not> isDup setts s) setts)))
        = (\<Union>s \<in> {s \<in> set setts. \<not> isDup setts s}. set (optIDs (resolvedTransaction txns setts s)))"
    by (auto simp: phase2Txn_resolved)
  then have m2: "matchedTxnIDs ?st2 = set (resolvedIDList txns setts)"
    using p2 by (auto simp: afterPhase2_def f m1 resolvedIDList_def)
  note p3 = phase3_outcomes [of runID ?st2 txns]
  have "settledKeys (runResults cfg keys runID txns setts)
        = map ?so (dupGroups ?byKey keys) @ map ?so (filter (\<lambda>s. \<not> isDup setts s) setts)"
    using p3 by (simp add: runResults_def afterPhase3_def k2)
  then have "mset (settledKeys (runResults cfg keys runID txns setts))
        = image_mset ?so (mset (dupGroups ?byKey keys))
          + image_mset ?so (mset (filter (\<lambda>s. \<not> isDup setts s) setts))"
    by simp
  also have "\<dots> = image_mset ?so
                      (mset (filter (isDup setts) setts)
                       + mset (filter (\<lambda>s. \<not> isDup setts s) setts))"
    by (simp only: mset_dupGroups [OF ro] image_mset_union)
  also have "mset (filter (isDup setts) setts) + mset (filter (\<lambda>s. \<not> isDup setts s) setts)
             = mset setts"
    by (induction setts) auto
  finally show "mset (settledKeys (runResults cfg keys runID txns setts))
         = mset (map (settlementOutcome cfg txns setts) setts)"
    by simp
  show "unsettledIDs (runResults cfg keys runID txns setts)
         = map txn_ID (filter (\<lambda>t. txn_ID t \<notin> set (resolvedIDList txns setts)) txns)"
    using p3 by (simp add: runResults_def afterPhase3_def u2 m2)
qed

lemma length_filter_split:
  "length (filter P xs)
   = length (filter P (filter Q xs)) + length (filter P (filter (\<lambda>x. \<not> Q x) xs))"
  by (induction xs) auto

lemma length_filter_mset:
  "mset xs = mset ys \<Longrightarrow> length (filter P xs) = length (filter P ys)"
  by (metis mset_filter size_mset)

lemma filter_same_key:
  assumes "distinct (map f xs)" and "x \<in> set xs"
  shows "length (filter (\<lambda>y. f y = f x) xs) = 1"
  using assms
proof (induction xs)
  case Nil
  then show ?case by simp
next
  case (Cons a xs)
  show ?case
  proof (cases "f a = f x")
    case True
    then have "\<forall>y \<in> set xs. f y \<noteq> f x"
      using Cons.prems(1) by (metis distinct.simps(2) imageI list.simps(9) set_map)
    then have "filter (\<lambda>y. f y = f x) xs = []"
      by (simp add: filter_empty_conv)
    with True show ?thesis by simp
  next
    case False
    then have "x \<in> set xs" using Cons.prems(2) by auto
    with Cons False show ?thesis by simp
  qed
qed

lemma run_transaction_count:
  assumes ro: "rangeOrder keys (settlementsByKey setts)"
    and dt: "distinct (map txn_ID txns)"
    and ds: "distinct (map stl_ID setts)"
    and t: "t \<in> set txns" and ne: "txn_ID t \<noteq> []"
  shows "length (filter (\<lambda>r. TransactionID r = txn_ID t) (runResults cfg keys runID txns setts))
         = max 1 (length (filter (\<lambda>s. optID (resolvedTransaction txns setts s) = txn_ID t) setts))"
proof -
  let ?rs = "runResults cfg keys runID txns setts"
  let ?n = "length (filter (\<lambda>s. optID (resolvedTransaction txns setts s) = txn_ID t) setts)"
  let ?so = "settlementOutcome cfg txns setts"
  have "length (filter (\<lambda>r. TransactionID r = txn_ID t) (filter (\<lambda>r. Status r \<noteq> StatusUnsettled) ?rs))
        = length (filter (\<lambda>k. snd (snd k) = txn_ID t) (settledKeys ?rs))"
    by (simp add: settledKeys_def filter_map comp_def outcomeKey_def)
  also have "\<dots> = length (filter (\<lambda>k. snd (snd k) = txn_ID t) (map ?so setts))"
    by (rule length_filter_mset) (rule run_outcomes (1) [OF ro ds])
  also have "\<dots> = ?n"
    by (simp add: filter_map comp_def settlementOutcome_def)
  finally have settled:
    "length (filter (\<lambda>r. TransactionID r = txn_ID t) (filter (\<lambda>r. Status r \<noteq> StatusUnsettled) ?rs))
     = ?n" .
  have res: "txn_ID t \<in> set (resolvedIDList txns setts) \<longleftrightarrow> 0 < ?n"
  proof -
    have "optID x = txn_ID t \<longleftrightarrow> txn_ID t \<in> set (optIDs x)" for x
      using ne by (cases x) (auto simp: optID_def optIDs_def)
    then show ?thesis
      by (auto simp: resolvedIDList_def filter_empty_conv)
  qed
  have "length (filter (\<lambda>r. TransactionID r = txn_ID t) (filter (\<lambda>r. \<not> Status r \<noteq> StatusUnsettled) ?rs))
        = length (filter (\<lambda>x. x = txn_ID t) (unsettledIDs ?rs))"
    by (simp add: unsettledIDs_def filter_map comp_def)
  also have "\<dots> = length (filter (\<lambda>t'. txn_ID t' = txn_ID t
                              \<and> txn_ID t' \<notin> set (resolvedIDList txns setts)) txns)"
    by (simp add: run_outcomes (2) [OF ro ds] filter_map comp_def conj_commute)
  also have "\<dots> = (if txn_ID t \<in> set (resolvedIDList txns setts) then 0
                  else length (filter (\<lambda>t'. txn_ID t' = txn_ID t) txns))"
    by (auto intro!: arg_cong [where f = length] filter_cong simp: filter_empty_conv)
  also have "\<dots> = (if 0 < ?n then 0 else 1)"
    by (simp add: res filter_same_key [OF dt t] del: length_greater_0_conv)
  finally have unsettled:
    "length (filter (\<lambda>r. TransactionID r = txn_ID t) (filter (\<lambda>r. \<not> Status r \<noteq> StatusUnsettled) ?rs))
     = (if 0 < ?n then 0 else 1)" .
  show ?thesis
    using length_filter_split [of "\<lambda>r. TransactionID r = txn_ID t" ?rs "\<lambda>r. Status r \<noteq> StatusUnsettled"]
    by (simp only: settled unsettled) (simp del: length_greater_0_conv)
qed

lemma run_settlement_status:
  assumes ro: "rangeOrder keys (settlementsByKey setts)"
    and ds: "distinct (map stl_ID setts)"
    and s: "s \<in> set setts"
    and r: "r \<in> set (runResults cfg keys runID txns setts)"
      "Status r \<noteq> StatusUnsettled" "SettlementID r = stl_ID s"
  shows "outcomeKey r = settlementOutcome cfg txns setts s"
    and "Status r = StatusDuplicate \<longleftrightarrow> isDup setts s"
proof -
  have "outcomeKey r \<in> set (settledKeys (runResults cfg keys runID txns setts))"
    using r(1,2) by (simp add: settledKeys_def)
  then have "outcomeKey r \<in> set (map (settlementOutcome cfg txns setts) setts)"
    using mset_eq_setD [OF run_outcomes (1) [OF ro ds]] by blast
  then obtain s' where s': "s' \<in> set setts" "outcomeKey r = settlementOutcome cfg txns setts s'"
    by auto
  then have "stl_ID s' = stl_ID s"
    using r(3) by (simp add: outcomeKey_def settlementOutcome_def)
  then have "s' = s"
    using ds s s'(1) by (auto simp: distinct_map dest: inj_onD)
  with s' show k: "outcomeKey r = settlementOutcome cfg txns setts s" by simp
  then have "Status r = settlementStatus cfg txns setts s"
    by (simp add: outcomeKey_def settlementOutcome_def)
  then show "Status r = StatusDuplicate \<longleftrightarrow> isDup setts s"
    by (auto simp: settlementStatus_def split: option.splits if_splits)
qed

lemma run_settlement_count:
  assumes ro: "rangeOrder keys (settlementsByKey setts)"
    and ds: "distinct (map stl_ID setts)"
    and s: "s \<in> set setts"
  shows "length (filter (\<lambda>r. Status r \<noteq> StatusUnsettled \<and> SettlementID r = stl_ID s)
                   (runResults cfg keys runID txns setts)) = 1"
proof -
  let ?rs = "runResults cfg keys runID txns setts"
  have "length (filter (\<lambda>r. Status r \<noteq> StatusUnsettled \<and> SettlementID r = stl_ID s) ?rs)
        = length (filter (\<lambda>x. x = stl_ID s) (settledIDs ?rs))"
    by (simp add: settledIDs_def filter_map comp_def conj_commute)
  also have "\<dots> = length (filter (\<lambda>x. x = stl_ID s) (map stl_ID setts))"
    by (rule length_filter_mset) (rule runResults_settledIDs [OF ro ds])
  also have "\<dots> = length (filter (\<lambda>s'. stl_ID s' = stl_ID s) setts)"
    by (simp add: filter_map comp_def)
  also have "\<dots> = 1"
    by (rule filter_same_key [OF ds s])
  finally show ?thesis .
qed

section \<open>Theorems\<close>

text \<open>
  C1 (as amended): for every run over snapshots with pairwise distinct identifiers, the
  outcomes are determined record by record.

  Settlements. The outcomes that are not \<open>unsettled\<close> are, as a multiset of triples
  (settlement reference, status, transaction reference), exactly one triple per
  settlement: \<open>settlementOutcome cfg txns setts s\<close>. So every settlement is referenced by
  exactly one outcome that is not \<open>unsettled\<close>, and that outcome has status \<open>duplicate\<close>
  if and only if another settlement of the snapshot has the same processor key; otherwise
  it is \<open>unexpected_settlement\<close> when no transaction is found for it and the status of
  the matched pair when one is.

  Transactions. The \<open>unsettled\<close> outcomes reference, in snapshot order and once each,
  exactly the transactions that no settlement resolves to. A transaction with a non-empty
  identifier is referenced by \<open>max 1 k\<close> outcomes, where \<open>k\<close> is the number of settlements
  that resolve to it: by exactly one outcome when at most one settlement resolves to it,
  and by \<open>k\<close> outcomes otherwise. (The empty identifier is Go's "no reference", which
  \<open>unexpected_settlement\<close> outcomes carry.)

  Hence every transaction identifier and every settlement identifier appears in at least
  one outcome, and the outcome list has length at least
  \<open>max(number of transactions, number of settlements)\<close>. The claim's "exactly one
  outcome" does not hold for transactions: one transaction may be referenced by several
  outcomes.
\<close>

theorem outcomes_cover_records:
  assumes "Run cfg keys now runID txns setts report"
    and "distinct (map txn_ID txns)"
    and "distinct (map stl_ID setts)"
  shows "mset (map outcomeKey (filter (\<lambda>r. Status r \<noteq> StatusUnsettled) (Results report)))
           = mset (map (settlementOutcome cfg txns setts) setts)
       \<and> (\<forall>s \<in> set setts.
             length (filter (\<lambda>r. Status r \<noteq> StatusUnsettled \<and> SettlementID r = stl_ID s)
                       (Results report)) = 1)
       \<and> (\<forall>s \<in> set setts. \<forall>r \<in> set (Results report).
             Status r \<noteq> StatusUnsettled \<and> SettlementID r = stl_ID s \<longrightarrow>
             (Status r = StatusDuplicate \<longleftrightarrow> isDup setts s))
       \<and> map TransactionID (filter (\<lambda>r. Status r = StatusUnsettled) (Results report))
           = map txn_ID (filter (\<lambda>t. txn_ID t \<notin> set (resolvedIDList txns setts)) txns)
       \<and> (\<forall>t \<in> set txns. txn_ID t \<noteq> [] \<longrightarrow>
             length (filter (\<lambda>r. TransactionID r = txn_ID t) (Results report))
             = max 1 (length (filter (\<lambda>s. optID (resolvedTransaction txns setts s) = txn_ID t)
                                setts)))
       \<and> mset (map SettlementID (filter (\<lambda>r. Status r \<noteq> StatusUnsettled) (Results report)))
           = mset (map stl_ID setts)
       \<and> txn_ID ` set txns \<subseteq> TransactionID ` set (Results report)
       \<and> stl_ID ` set setts \<subseteq> SettlementID ` set (Results report)
       \<and> max (length txns) (length setts) \<le> length (Results report)"
proof -
  let ?rs = "runResults cfg keys runID txns setts"
  have rs: "Results report = ?rs"
    by (rule Run_Results [OF assms(1)])
  have ro: "rangeOrder keys (settlementsByKey setts)"
    using assms(1) by (simp add: Run_def)
  have a: "mset (map outcomeKey (filter (\<lambda>r. Status r \<noteq> StatusUnsettled) ?rs))
           = mset (map (settlementOutcome cfg txns setts) setts)"
    using run_outcomes (1) [OF ro assms(3)] by (simp add: settledKeys_def)
  have b: "\<forall>s \<in> set setts.
             length (filter (\<lambda>r. Status r \<noteq> StatusUnsettled \<and> SettlementID r = stl_ID s) ?rs) = 1"
    using run_settlement_count [OF ro assms(3)] by blast
  have c: "\<forall>s \<in> set setts. \<forall>r \<in> set ?rs.
             Status r \<noteq> StatusUnsettled \<and> SettlementID r = stl_ID s \<longrightarrow>
             (Status r = StatusDuplicate \<longleftrightarrow> isDup setts s)"
    using run_settlement_status (2) [OF ro assms(3)] by blast
  have d: "map TransactionID (filter (\<lambda>r. Status r = StatusUnsettled) ?rs)
           = map txn_ID (filter (\<lambda>t. txn_ID t \<notin> set (resolvedIDList txns setts)) txns)"
    using run_outcomes (2) [OF ro assms(3)] by (simp add: unsettledIDs_def)
  have e: "\<forall>t \<in> set txns. txn_ID t \<noteq> [] \<longrightarrow>
             length (filter (\<lambda>r. TransactionID r = txn_ID t) ?rs)
             = max 1 (length (filter (\<lambda>s. optID (resolvedTransaction txns setts s) = txn_ID t)
                                setts))"
    using run_transaction_count [OF ro assms(2,3)] by blast
  have m: "mset (settledIDs ?rs) = mset (map stl_ID setts)"
    by (rule runResults_settledIDs [OF ro assms(3)])
  have t: "txn_ID ` set txns \<subseteq> TransactionID ` set ?rs"
    by (rule runResults_covers_transactions)
  have "set (settledIDs ?rs) = set (map stl_ID setts)"
    using m by (rule mset_eq_setD)
  then have s: "stl_ID ` set setts \<subseteq> SettlementID ` set ?rs"
    by (auto simp: settledIDs_def)
  have "length (settledIDs ?rs) = length (map stl_ID setts)"
    using m by (rule mset_eq_length)
  then have ls: "length setts \<le> length ?rs"
    using length_filter_le [of "\<lambda>r. Status r \<noteq> StatusUnsettled" ?rs]
    by (simp add: settledIDs_def)
  have "length txns = card (txn_ID ` set txns)"
    using assms(2) by (metis distinct_card length_map set_map)
  also have "\<dots> \<le> card (TransactionID ` set ?rs)"
    using t by (intro card_mono) simp_all
  also have "\<dots> \<le> length ?rs"
    by (metis card_image_le card_length le_trans List.finite_set)
  finally have lt: "length txns \<le> length ?rs" .
  have f: "mset (map SettlementID (filter (\<lambda>r. Status r \<noteq> StatusUnsettled) ?rs))
           = mset (map stl_ID setts)"
    using m by (simp add: settledIDs_def)
  have g: "max (length txns) (length setts) \<le> length ?rs"
    using ls lt by simp
  show ?thesis
    unfolding rs using a b c d e f t s g by blast
qed

theorem outcomes_cover_records_witness:
  "Run DefaultConfig exKeys 0 ''R'' exTxns exSetts exReport
   \<and> distinct (map txn_ID exTxns)
   \<and> distinct (map stl_ID exSetts)
   \<and> map outcomeKey (filter (\<lambda>r. Status r \<noteq> StatusUnsettled) (Results exReport))
       = [(''S1'', StatusDuplicate, ''T1''), (''S2'', StatusDuplicate, ''T1''),
          (''S3'', StatusUnexpectedSettlement, []), (''S5'', StatusMatchedWithVariance, ''T3'')]
   \<and> map (settlementOutcome DefaultConfig exTxns exSetts) exSetts
       = [(''S1'', StatusDuplicate, ''T1''), (''S2'', StatusDuplicate, ''T1''),
          (''S3'', StatusUnexpectedSettlement, []), (''S5'', StatusMatchedWithVariance, ''T3'')]
   \<and> map (isDup exSetts) exSetts = [True, True, False, False]
   \<and> resolvedIDList exTxns exSetts = [''T1'', ''T1'', ''T3'']
   \<and> map TransactionID (filter (\<lambda>r. Status r = StatusUnsettled) (Results exReport)) = [''T2'']
   \<and> map (\<lambda>t. length (filter (\<lambda>r. TransactionID r = txn_ID t) (Results exReport))) exTxns
       = [2, 1, 1]
   \<and> map TransactionID (Results exReport) = [''T1'', ''T1'', [], ''T3'', ''T2'']
   \<and> map SettlementID (Results exReport) = [''S1'', ''S2'', ''S3'', ''S5'', []]
   \<and> max (length exTxns) (length exSetts) \<le> length (Results exReport)"
proof -
  have dt: "distinct (map txn_ID exTxns)"
    by (simp add: exTxns_def exTxn_def)
  have ds: "distinct (map stl_ID exSetts)"
    by (simp add: exSetts_def exStl_def)
  have ev: "map outcomeKey (filter (\<lambda>r. Status r \<noteq> StatusUnsettled)
                             (runResults DefaultConfig exKeys ''R'' exTxns exSetts))
       = [(''S1'', StatusDuplicate, ''T1''), (''S2'', StatusDuplicate, ''T1''),
          (''S3'', StatusUnexpectedSettlement, []), (''S5'', StatusMatchedWithVariance, ''T3'')]"
    "map TransactionID (filter (\<lambda>r. Status r = StatusUnsettled)
                          (runResults DefaultConfig exKeys ''R'' exTxns exSetts)) = [''T2'']"
    "map (\<lambda>t. length (filter (\<lambda>r. TransactionID r = txn_ID t)
                         (runResults DefaultConfig exKeys ''R'' exTxns exSetts))) exTxns
       = [2, 1, 1]"
    by (simp_all add: run_eval outcomeKey_def)
  have sp: "map (settlementOutcome DefaultConfig exTxns exSetts) exSetts
       = [(''S1'', StatusDuplicate, ''T1''), (''S2'', StatusDuplicate, ''T1''),
          (''S3'', StatusUnexpectedSettlement, []), (''S5'', StatusMatchedWithVariance, ''T3'')]"
    "map (isDup exSetts) exSetts = [True, True, False, False]"
    "resolvedIDList exTxns exSetts = [''T1'', ''T1'', ''T3'']"
    by (simp_all add: settlementOutcome_def settlementStatus_def resolvedTransaction_def
        resolvedIDList_def isDup_def optID_def optIDs_def matchStatus_def run_eval)
  from outcomes_cover_records [OF ex_Run dt ds] ex_Run dt ds show ?thesis
    by (simp add: ex_Report ex_results ev sp)
qed

text \<open>
  One authorization \<open>T1\<close> (order \<open>O1\<close>, processor key \<open>P1:X1\<close>) and two settlements with
  distinct keys \<open>P1:X1\<close> and \<open>P1:X9\<close>, both with order reference \<open>O1\<close>. Neither key is
  a duplicate key. Phase 2 matches the first on the processor key and the second on the
  order reference, so \<open>T1\<close> is referenced by two outcomes, both \<open>matched\<close>.
\<close>

theorem one_outcome_per_record_counterexample:
  "Run DefaultConfig exFallbackKeys 0 ''R'' [exTxnMXN] exFallbackSetts exFallbackReport
   \<and> map txn_ID [exTxnMXN] = [''T1'']
   \<and> map stl_ID exFallbackSetts = [''S1'', ''S2'']
   \<and> map TransactionID (Results exFallbackReport) = [''T1'', ''T1'']
   \<and> map SettlementID (Results exFallbackReport) = [''S1'', ''S2'']
   \<and> map Status (Results exFallbackReport) = [StatusMatched, StatusMatched]"
proof -
  let ?rs = "runResults DefaultConfig exFallbackKeys ''R'' [exTxnMXN] exFallbackSetts"
  have ro: "rangeOrder exFallbackKeys (settlementsByKey exFallbackSetts)"
    by (auto simp: rangeOrder_def dom_settlementsByKey exFallbackKeys_def exFallbackSetts_def
        exStl_def stlKey_def processorKey_def)
  have ev: "map TransactionID ?rs = [''T1'', ''T1'']"
    "map SettlementID ?rs = [''S1'', ''S2'']"
    "map Status ?rs = [StatusMatched, StatusMatched]"
    "filter (highPriority_spec DefaultConfig) ?rs = []"
    by (simp_all add: run_eval exFallbackKeys_def exFallbackSetts_def exTxnMXN_def
        highPriority_spec_def)
  have run: "Run DefaultConfig exFallbackKeys 0 ''R'' [exTxnMXN] exFallbackSetts exFallbackReport"
    unfolding exFallbackReport_def by (rule Run_unsorted [OF ro]) (simp add: ev)
  have ids: "map txn_ID [exTxnMXN] = [''T1'']" "map stl_ID exFallbackSetts = [''S1'', ''S2'']"
    by (simp_all add: exFallbackSetts_def exTxnMXN_def exTxn_def exStl_def)
  have "Results exFallbackReport = ?rs"
    by (simp add: exFallbackReport_def)
  with run ids ev show ?thesis
    by simp
qed

text \<open>
  C2 (as amended): in phase 2, for a matched settlement whose variance exceeds 0.01 in
  absolute value and exceeds the tolerance amount: if the settlement currency equals the
  transaction currency, the fee amount is strictly positive and
  \<open>|variance + feeAmount| < 0.01\<close>, the outcome is \<open>matched\<close> and its note cites the fee
  deduction; otherwise it is \<open>matched_with_variance\<close>. (The claim has \<open>\<le> 0.01\<close> and no
  condition on the sign of the fee.) \<open>matchedResult cfg txn s rid\<close> is the outcome phase 2
  appends for settlement \<open>s\<close> once \<open>findTransaction\<close> has returned \<open>txn\<close>, and every
  outcome of a run with status \<open>matched\<close> or \<open>matched_with_variance\<close> is of this form
  (lemma \<open>runResults_matched\<close>).
\<close>

theorem fee_explained_variance:
  assumes "e = convertAmount cfg (txn_Amount txn) (txn_Currency txn) (stl_Currency s)"
    and "v = stl_GrossAmount s - e"
    and "\<bar>v\<bar> > 0.01"
    and "\<bar>v\<bar> > e * VarianceTolerancePct cfg"
  shows "VarianceAmount (matchedResult cfg txn s rid) = v
       \<and> (if txn_Currency txn = stl_Currency s \<and> stl_FeeAmount s > 0
              \<and> \<bar>v + stl_FeeAmount s\<bar> < 0.01
           then Status (matchedResult cfg txn s rid) = StatusMatched
              \<and> hd (Notes (matchedResult cfg txn s rid))
                  = NoteFeeDeduction v (stl_Currency s) (stl_FeeAmount s)
           else Status (matchedResult cfg txn s rid) = StatusMatchedWithVariance)"
proof -
  have st: "Status (matchedResult cfg txn s rid) = fst (classifyVariance cfg txn s e v)"
    and nt: "hd (Notes (matchedResult cfg txn s rid))
             = hd (snd (classifyVariance cfg txn s e v) @ [NoteLate 0 0])
           \<or> snd (classifyVariance cfg txn s e v) = []"
    and var: "VarianceAmount (matchedResult cfg txn s rid) = v"
    by (simp_all add: matchedResult_Status matchedResult_Notes assms(1,2) hd_append)
  show ?thesis
    unfolding st var using nt assms(3,4)
    by (auto simp: classifyVariance_def)
qed

theorem fee_explained_variance_witness:
  "\<bar>97 - 100 :: real\<bar> > 0.01
   \<and> \<bar>97 - 100 :: real\<bar> > 100 * VarianceTolerancePct DefaultConfig
   \<and> VarianceAmount (matchedResult DefaultConfig exTxnMXN (exStlMXN 97 3) ''RR-R-0001'') = - 3
   \<and> Status (matchedResult DefaultConfig exTxnMXN (exStlMXN 97 3) ''RR-R-0001'') = StatusMatched
   \<and> Notes (matchedResult DefaultConfig exTxnMXN (exStlMXN 97 3) ''RR-R-0001'')
       = [NoteFeeDeduction (- 3) ''MXN'' 3]
   \<and> Status (matchedResult DefaultConfig exTxnMXN (exStlMXN 97 0) ''RR-R-0001'')
       = StatusMatchedWithVariance"
proof -
  have e: "(100 :: real)
           = convertAmount DefaultConfig (txn_Amount exTxnMXN) (txn_Currency exTxnMXN)
               (stl_Currency (exStlMXN 97 3))"
    by (simp add: convertAmount_def exTxnMXN_def exStlMXN_def exTxn_def exStl_def)
  have v: "(- 3 :: real) = stl_GrossAmount (exStlMXN 97 3) - 100"
    by (simp add: exStlMXN_def exStl_def)
  have a: "\<bar>- 3 :: real\<bar> > 0.01" by simp
  have b: "\<bar>- 3 :: real\<bar> > 100 * VarianceTolerancePct DefaultConfig"
    by (simp add: DefaultConfig_def)
  have n: "Notes (matchedResult DefaultConfig exTxnMXN (exStlMXN 97 3) ''RR-R-0001'')
           = [NoteFeeDeduction (- 3) ''MXN'' 3]"
    and m: "Status (matchedResult DefaultConfig exTxnMXN (exStlMXN 97 0) ''RR-R-0001'')
            = StatusMatchedWithVariance"
    by (simp_all add: run_eval exTxnMXN_def exStlMXN_def)
  show ?thesis
    using fee_explained_variance [OF e v a b, of "''RR-R-0001''"] n m
    by (simp add: DefaultConfig_def exTxnMXN_def exStlMXN_def exTxn_def exStl_def)
qed

text \<open>
  A settlement of 105 MXN with a fee of \<open>-5\<close> against an authorization of 100 MXN, default
  configuration: the variance 5 exceeds 0.01 and the tolerance amount 0, the currencies
  agree and \<open>|5 + (-5)| = 0 \<le> 0.01\<close>, yet the run classifies the outcome
  \<open>matched_with_variance\<close>, because the fee is not positive.
\<close>

theorem fee_explained_variance_counterexample:
  "map Status (runResults DefaultConfig [''P1:X1''] ''R'' [exTxnMXN] [exStlMXN 105 (- 5)])
     = [StatusMatchedWithVariance]
   \<and> map VarianceAmount (runResults DefaultConfig [''P1:X1''] ''R'' [exTxnMXN] [exStlMXN 105 (- 5)])
     = [5]
   \<and> map ExpectedAmount (runResults DefaultConfig [''P1:X1''] ''R'' [exTxnMXN] [exStlMXN 105 (- 5)])
     = [100]
   \<and> map FeeAmount (runResults DefaultConfig [''P1:X1''] ''R'' [exTxnMXN] [exStlMXN 105 (- 5)])
     = [- 5]
   \<and> map Currency (runResults DefaultConfig [''P1:X1''] ''R'' [exTxnMXN] [exStlMXN 105 (- 5)])
     = [txn_Currency exTxnMXN]
   \<and> VarianceTolerancePct DefaultConfig = 0"
  by (simp add: run_eval exTxnMXN_def exStlMXN_def)

text \<open>
  C3 (as amended): in phase 2, for a matched settlement: if \<open>|variance| \<le> 0.01\<close> the
  outcome is \<open>matched\<close>; else if \<open>|variance| \<le> expectedAmount * toleranceFraction\<close> the
  outcome is \<open>matched\<close> with a tolerance note; in particular a variance exactly at
  \<open>expectedAmount * tolerancePct\<close> is \<open>matched\<close>. A variance beyond both bounds is
  \<open>matched_with_variance\<close> unless the currencies agree, the fee is positive and
  \<open>|variance + feeAmount| < 0.01\<close>, in which case it is \<open>matched\<close>. (The claim has every
  variance beyond the tolerance classified \<open>matched_with_variance\<close>.)
\<close>

theorem tolerance_classification:
  assumes "e = convertAmount cfg (txn_Amount txn) (txn_Currency txn) (stl_Currency s)"
    and "v = stl_GrossAmount s - e"
  shows "(\<bar>v\<bar> \<le> 0.01 \<longrightarrow> Status (matchedResult cfg txn s rid) = StatusMatched)
       \<and> (\<bar>v\<bar> > 0.01 \<and> \<bar>v\<bar> \<le> e * VarianceTolerancePct cfg \<longrightarrow>
            Status (matchedResult cfg txn s rid) = StatusMatched
            \<and> hd (Notes (matchedResult cfg txn s rid))
                = NoteTolerance v (stl_Currency s) (VarianceTolerancePct cfg * 100))
       \<and> (\<bar>v\<bar> = e * VarianceTolerancePct cfg \<longrightarrow>
            Status (matchedResult cfg txn s rid) = StatusMatched)
       \<and> (\<bar>v\<bar> > 0.01 \<and> \<bar>v\<bar> > e * VarianceTolerancePct cfg \<longrightarrow>
            Status (matchedResult cfg txn s rid)
              = (if txn_Currency txn = stl_Currency s \<and> stl_FeeAmount s > 0
                    \<and> \<bar>v + stl_FeeAmount s\<bar> < 0.01
                 then StatusMatched else StatusMatchedWithVariance))"
proof -
  have st: "Status (matchedResult cfg txn s rid) = fst (classifyVariance cfg txn s e v)"
    and nt: "hd (Notes (matchedResult cfg txn s rid))
             = hd (snd (classifyVariance cfg txn s e v) @ [NoteLate 0 0])
           \<or> snd (classifyVariance cfg txn s e v) = []"
    by (simp_all add: matchedResult_Status matchedResult_Notes assms(1,2) hd_append)
  show ?thesis
    unfolding st using nt
    by (auto simp: classifyVariance_def)
qed

theorem tolerance_classification_witness:
  "Status (matchedResult cfgTolerance2 exTxnMXN (exStlMXN 100 0) ''RR-R-0001'') = StatusMatched
   \<and> Status (matchedResult cfgTolerance2 exTxnMXN (exStlMXN 98.5 0) ''RR-R-0001'') = StatusMatched
   \<and> Notes (matchedResult cfgTolerance2 exTxnMXN (exStlMXN 98.5 0) ''RR-R-0001'')
       = [NoteTolerance (- 1.5) ''MXN'' 2]
   \<and> Status (matchedResult cfgTolerance2 exTxnMXN (exStlMXN 98 0) ''RR-R-0001'') = StatusMatched
   \<and> Status (matchedResult cfgTolerance2 exTxnMXN (exStlMXN 97 0) ''RR-R-0001'')
       = StatusMatchedWithVariance"
proof -
  have e: "(100 :: real)
           = convertAmount cfgTolerance2 (txn_Amount exTxnMXN) (txn_Currency exTxnMXN)
               (stl_Currency (exStlMXN g 0))" for g
    by (simp add: convertAmount_def exTxnMXN_def exStlMXN_def exTxn_def exStl_def)
  have v: "g - 100 = stl_GrossAmount (exStlMXN g 0) - 100" for g
    by (simp add: exStlMXN_def exStl_def)
  have n: "Notes (matchedResult cfgTolerance2 exTxnMXN (exStlMXN 98.5 0) ''RR-R-0001'')
           = [NoteTolerance (- 1.5) ''MXN'' 2]"
    by (simp add: run_eval cfgTolerance2_def exTxnMXN_def exStlMXN_def)
  show ?thesis
    using tolerance_classification [OF e v, of 100 "''RR-R-0001''"]
      tolerance_classification [OF e v, of "98.5" "''RR-R-0001''"]
      tolerance_classification [OF e v, of 98 "''RR-R-0001''"]
      tolerance_classification [OF e v, of 97 "''RR-R-0001''"] n
    by (simp add: cfgTolerance2_def DefaultConfig_def exTxnMXN_def exStlMXN_def exTxn_def
        exStl_def)
qed

text \<open>
  With a tolerance of 2%, a settlement of 97 MXN with a fee of 3 against an authorization
  of 100 MXN has variance \<open>-3\<close>, beyond the tolerance amount 2 and beyond 0.01; the run
  classifies it \<open>matched\<close>, with the fee-deduction note.
\<close>

theorem tolerance_classification_counterexample:
  "map Status (runResults cfgTolerance2 [''P1:X1''] ''R'' [exTxnMXN] [exStlMXN 97 3])
     = [StatusMatched]
   \<and> map VarianceAmount (runResults cfgTolerance2 [''P1:X1''] ''R'' [exTxnMXN] [exStlMXN 97 3])
     = [- 3]
   \<and> map ExpectedAmount (runResults cfgTolerance2 [''P1:X1''] ''R'' [exTxnMXN] [exStlMXN 97 3])
     = [100]
   \<and> map Notes (runResults cfgTolerance2 [''P1:X1''] ''R'' [exTxnMXN] [exStlMXN 97 3])
     = [[NoteFeeDeduction (- 3) ''MXN'' 3]]
   \<and> VarianceTolerancePct cfgTolerance2 = 0.02"
  by (simp add: run_eval cfgTolerance2_def exTxnMXN_def exStlMXN_def)

text \<open>
  C4: the claim has the variance of every outcome that references both a transaction and
  a settlement equal to the settled gross amount minus the FX-converted expected amount.
  Phase 2 computes it so (\<open>matchedResult_fields\<close>). Phase 1 does not: for an
  authorization of 1000 BRL settled twice in USD at 200, the two \<open>duplicate\<close> outcomes
  carry the variance \<open>200 - 1000 = -800\<close>, whereas the converted expected amount is
  \<open>1000 * 0.20 = 200\<close> and the FX-adjusted variance would be 0.
\<close>

theorem duplicate_variance_not_converted:
  "map Status (runResults DefaultConfig [''P1:X1''] ''R'' exDupTxns exDupSetts)
     = [StatusDuplicate, StatusDuplicate]
   \<and> map TransactionID (runResults DefaultConfig [''P1:X1''] ''R'' exDupTxns exDupSetts)
     = [''T1'', ''T1'']
   \<and> map SettlementID (runResults DefaultConfig [''P1:X1''] ''R'' exDupTxns exDupSetts)
     = [''S1'', ''S2'']
   \<and> map SettledGrossAmount (runResults DefaultConfig [''P1:X1''] ''R'' exDupTxns exDupSetts)
     = [200, 200]
   \<and> map VarianceAmount (runResults DefaultConfig [''P1:X1''] ''R'' exDupTxns exDupSetts)
     = [- 800, - 800]
   \<and> map txn_Amount exDupTxns = [1000]
   \<and> convertAmount DefaultConfig 1000 ''BRL'' ''USD'' = 200"
  by (simp add: run_eval exDupTxns_def exDupSetts_def)

text \<open>
  C5 (as amended): the report's high-priority list is sorted by non-increasing absolute
  variance amount and holds exactly the qualifying outcomes of the run, each once. The
  claim adds that outcomes with equal absolute variance retain their arrival order; the
  source sorts with \<open>sort.Slice\<close>, whose contract does not promise a stable order, so
  that part is not guaranteed.
\<close>

theorem high_priority_sorted:
  assumes "Run cfg keys now runID txns setts report"
  shows "sorted_wrt (\<lambda>a b. \<bar>VarianceAmount a\<bar> \<ge> \<bar>VarianceAmount b\<bar>) (HighPriority report)
       \<and> mset (HighPriority report) = mset (filter (highPriority_spec cfg) (Results report))"
  using Run_HighPriority [OF assms] by simp

theorem high_priority_sorted_witness:
  "Run DefaultConfig exKeys 0 ''R'' exTxns exSetts exReport
   \<and> map VarianceAmount (HighPriority exReport) = [2000, - 2000]
   \<and> sorted_wrt (\<lambda>a b. \<bar>VarianceAmount a\<bar> \<ge> \<bar>VarianceAmount b\<bar>) (HighPriority exReport)
   \<and> mset (HighPriority exReport)
       = mset (filter (highPriority_spec DefaultConfig) (Results exReport))"
proof -
  have "map VarianceAmount (HighPriority exReport) = [2000, - 2000]"
    by (simp add: ex_Report ex_highPriority)
  with high_priority_sorted [OF ex_Run] ex_Run show ?thesis
    by blast
qed

text \<open>
  Thirteen unexpected settlements are emitted in the order \<open>0001\<close>, \<dots>, \<open>0013\<close> with the
  variances 5000, 5000, 9000, 9000, 9000, 9000, 7000 and six times 1000; all of them
  qualify as high priority. The report below lists them as \<open>0005, 0006, 0003, 0004, 0007,
  0002, 0001, 0008, \<dots>\<close>: sorted by non-increasing absolute variance and a rearrangement
  of the unsorted list, hence a result the contract of \<open>sort.Slice\<close> admits. It is the order
  a quicksort partition around the seventh element leaves behind. Outcome \<open>0002\<close> precedes
  \<open>0001\<close> at the same absolute variance 5000, and \<open>0005\<close> precedes \<open>0003\<close> at 9000.
\<close>

theorem high_priority_ties_counterexample:
  "Run DefaultConfig exTieKeys 0 ''R'' [] exTieSetts exTieReport
   \<and> map ID (Results exTieReport)
       = [''RR-R-0001'', ''RR-R-0002'', ''RR-R-0003'', ''RR-R-0004'', ''RR-R-0005'',
          ''RR-R-0006'', ''RR-R-0007'', ''RR-R-0008'', ''RR-R-0009'', ''RR-R-0010'',
          ''RR-R-0011'', ''RR-R-0012'', ''RR-R-0013'']
   \<and> map VarianceAmount (Results exTieReport)
       = [5000, 5000, 9000, 9000, 9000, 9000, 7000, 1000, 1000, 1000, 1000, 1000, 1000]
   \<and> map ID (HighPriority exTieReport)
       = [''RR-R-0005'', ''RR-R-0006'', ''RR-R-0003'', ''RR-R-0004'', ''RR-R-0007'',
          ''RR-R-0002'', ''RR-R-0001'', ''RR-R-0008'', ''RR-R-0009'', ''RR-R-0010'',
          ''RR-R-0011'', ''RR-R-0012'', ''RR-R-0013'']"
proof -
  let ?rs = "runResults DefaultConfig exTieKeys ''R'' [] exTieSetts"
  let ?pre = "buildReport_unsorted DefaultConfig 0 ''R'' [] exTieSetts ?rs"
  have ro: "rangeOrder exTieKeys (settlementsByKey exTieSetts)"
    by (simp add: rangeOrder_def dom_settlementsByKey exTieKeys_def)
       (simp add: exTieSetts_def exUnexpected_def exStl_def stlKey_def processorKey_def)
  have hp: "HighPriority ?pre = filter (highPriority_spec DefaultConfig) ?rs"
    by (rule HighPriority_unsorted) (rule runResults_distinct_ids)
  have all: "filter (highPriority_spec DefaultConfig) ?rs = ?rs"
    by (simp add: run_eval exTieKeys_def exTieSetts_def exUnexpected_def pad04d_two
        highPriority_spec_def)
  have ids: "map ID ?rs
       = [''RR-R-0001'', ''RR-R-0002'', ''RR-R-0003'', ''RR-R-0004'', ''RR-R-0005'',
          ''RR-R-0006'', ''RR-R-0007'', ''RR-R-0008'', ''RR-R-0009'', ''RR-R-0010'',
          ''RR-R-0011'', ''RR-R-0012'', ''RR-R-0013'']"
    and vs: "map VarianceAmount ?rs
       = [5000, 5000, 9000, 9000, 9000, 9000, 7000, 1000, 1000, 1000, 1000, 1000, 1000]"
    by (simp_all add: run_eval exTieKeys_def exTieSetts_def exUnexpected_def pad04d_two)
  have len: "length ?rs = 13"
    using arg_cong [OF ids, of length] by simp
  have inb: "\<forall>i \<in> set exShuffle. i < length ?rs"
    by (simp add: len exShuffle_def)
  have "[0..<13] = [0, 1, 2, 3, 4, 5, 6, 7, 8, 9, 10, 11, 12 :: nat]"
    by code_simp
  then have perm: "mset exShuffle = mset [0..<length ?rs]"
    by (simp add: len exShuffle_def add_mset_commute del: mset_upt)
  have m: "mset (map ((!) ?rs) exShuffle) = mset ?rs"
    by (rule mset_map_nth [OF perm])
  have "map VarianceAmount (map ((!) ?rs) exShuffle)
        = [9000, 9000, 9000, 9000, 7000, 5000, 5000, 1000, 1000, 1000, 1000, 1000, 1000]"
    unfolding map_map_nth [OF inb] vs by (simp add: exShuffle_def)
  then have "sorted_wrt (\<lambda>a b. b \<le> a) (map abs (map VarianceAmount (map ((!) ?rs) exShuffle)))"
    by simp
  then have srt: "sorted_wrt (\<lambda>a b. \<not> absVarianceGreater b a) (map ((!) ?rs) exShuffle)"
    by (simp add: sorted_wrt_map absVarianceGreater_def not_less)
  have "buildReport DefaultConfig 0 ''R'' [] exTieSetts ?rs exTieReport"
    using srt m by (simp add: buildReport_def sort_Slice_def exTieReport_def hp all)
  then have run: "Run DefaultConfig exTieKeys 0 ''R'' [] exTieSetts exTieReport"
    using ro by (simp add: Run_def)
  have "map ID (HighPriority exTieReport)
       = [''RR-R-0005'', ''RR-R-0006'', ''RR-R-0003'', ''RR-R-0004'', ''RR-R-0007'',
          ''RR-R-0002'', ''RR-R-0001'', ''RR-R-0008'', ''RR-R-0009'', ''RR-R-0010'',
          ''RR-R-0011'', ''RR-R-0012'', ''RR-R-0013'']"
  proof -
    have h: "HighPriority exTieReport = map ((!) ?rs) exShuffle"
      by (simp add: exTieReport_def hp all)
    show ?thesis
      unfolding h map_map_nth [OF inb] ids by (simp add: exShuffle_def)
  qed
  moreover have "Results exTieReport = ?rs"
    by (simp add: exTieReport_def)
  ultimately show ?thesis
    using run ids vs by simp
qed

text \<open>
  C6: for all amounts and currency codes, \<open>convertAmount\<close> returns the amount unchanged
  when the currencies are equal; otherwise \<open>amount * rateTable[from][to]\<close> when that
  entry exists; otherwise, when both \<open>rateTable[from]["USD"]\<close> and
  \<open>rateTable[to]["USD"]\<close> exist, \<open>amount * rateFromToUSD / rateToToUSD\<close>; otherwise the
  amount unconverted. The function is total: no case raises an error.
\<close>

theorem convertAmount_matches_spec:
  "convertAmount cfg amount from to = convert_spec cfg amount from to"
  by (simp add: convertAmount_def convert_spec_def rateTable_def split: option.splits)

theorem convertAmount_matches_spec_witness:
  "convertAmount DefaultConfig 100 ''MXN'' ''BRL'' = 100 * 0.058 / 0.20
   \<and> convert_spec DefaultConfig 100 ''MXN'' ''BRL'' = 29
   \<and> convertAmount DefaultConfig 100 ''MXN'' ''USD'' = 5.8
   \<and> convertAmount DefaultConfig 100 ''MXN'' ''EUR'' = 100
   \<and> convertAmount DefaultConfig 100 ''MXN'' ''MXN'' = 100"
  using convertAmount_matches_spec [of DefaultConfig 100 "''MXN''" "''BRL''"]
  by (simp add: convert_spec_def convertAmount_def rateTable_def DefaultConfig_def)

text \<open>
  C7: in every report the summary's five status counters are the numbers of outcomes
  with that status, and the reconciliation rate equals
  \<open>(matched + matched_with_variance) / (matched + matched_with_variance + unsettled +
  unexpected_settlement + duplicate) * 100\<close> when the denominator is nonzero and \<open>0\<close>
  when it is zero.
\<close>

theorem reconciliation_rate_formula:
  assumes "buildReport cfg now runID txns setts rs report"
  shows "Matched (Summary report) = countOf StatusMatched rs
       \<and> MatchedWithVariance (Summary report) = countOf StatusMatchedWithVariance rs
       \<and> Unsettled (Summary report) = countOf StatusUnsettled rs
       \<and> UnexpectedSettlements (Summary report) = countOf StatusUnexpectedSettlement rs
       \<and> Duplicates (Summary report) = countOf StatusDuplicate rs
       \<and> ReconciliationRate (Summary report)
           = rate_spec (Matched (Summary report)) (MatchedWithVariance (Summary report))
               (Unsettled (Summary report)) (UnexpectedSettlements (Summary report))
               (Duplicates (Summary report))"
  by (simp add: Summary_buildReport [OF assms] counters_unsorted rate_unsorted)

theorem reconciliation_rate_formula_witness:
  "buildReport DefaultConfig 0 ''R'' exTxns exSetts
     (runResults DefaultConfig exKeys ''R'' exTxns exSetts) exReport
   \<and> Matched (Summary exReport) = 0
   \<and> MatchedWithVariance (Summary exReport) = 1
   \<and> Unsettled (Summary exReport) = 1
   \<and> UnexpectedSettlements (Summary exReport) = 1
   \<and> Duplicates (Summary exReport) = 2
   \<and> ReconciliationRate (Summary exReport) = 20"
proof -
  have b: "buildReport DefaultConfig 0 ''R'' exTxns exSetts
             (runResults DefaultConfig exKeys ''R'' exTxns exSetts) exReport"
    using ex_Run by (simp add: Run_def)
  have c: "countOf st (runResults DefaultConfig exKeys ''R'' exTxns exSetts)
           = length (filter (\<lambda>x. x = st)
               (map Status (runResults DefaultConfig exKeys ''R'' exTxns exSetts)))" for st
    by (simp add: countOf_def filter_map comp_def)
  show ?thesis
    using reconciliation_rate_formula [OF b] b
    by (simp add: c ex_results rate_spec_def)
qed

text \<open>
  C8: an outcome of the run appears in the report's high-priority list if and only if
  its status is not \<open>matched\<close> and its absolute variance is at least the high-priority
  threshold, or its days-to-settle exceeds the late-settlement threshold; and each
  outcome appears at most once in the list, also when it qualifies on both grounds.
\<close>

theorem high_priority_selection:
  assumes "Run cfg keys now runID txns setts report"
  shows "(\<forall>r. r \<in> set (HighPriority report)
               \<longleftrightarrow> r \<in> set (Results report) \<and> highPriority_spec cfg r)
       \<and> distinct (map ID (HighPriority report))"
proof -
  let ?q = "filter (highPriority_spec cfg) (Results report)"
  have m: "mset (HighPriority report) = mset ?q"
    by (rule Run_HighPriority (1) [OF assms])
  then have "set (HighPriority report) = set ?q"
    by (rule mset_eq_setD)
  then have iff: "\<forall>r. r \<in> set (HighPriority report)
                      \<longleftrightarrow> r \<in> set (Results report) \<and> highPriority_spec cfg r"
    by simp
  have "distinct (map ID (Results report))"
    using runResults_distinct_ids by (simp add: Run_Results [OF assms])
  then have "distinct (map ID ?q)"
    by (rule distinct_map_filter)
  moreover have "mset (map ID (HighPriority report)) = mset (map ID ?q)"
    using m by (metis mset_map)
  ultimately have "distinct (map ID (HighPriority report))"
    by (metis mset_eq_imp_distinct_iff)
  with iff show ?thesis by blast
qed

theorem high_priority_selection_witness:
  "Run DefaultConfig exKeys 0 ''R'' exTxns exSetts exReport
   \<and> map ID (Results exReport)
       = [''RR-R-0001'', ''RR-R-0002'', ''RR-R-0003'', ''RR-R-0004'', ''RR-R-0005'']
   \<and> map ID (HighPriority exReport) = [''RR-R-0003'', ''RR-R-0004'']
   \<and> set (HighPriority exReport)
       = set (filter (highPriority_spec DefaultConfig) (Results exReport))
   \<and> distinct (map ID (HighPriority exReport))"
  using high_priority_selection [OF ex_Run] ex_Run
  by (simp add: ex_Report ex_results ex_highPriority)

text \<open>
  C9: within a single run every emitted outcome receives a distinct identifier: the
  identifiers are \<open>RR-<runID>-<n>\<close> (the number zero-padded to four digits) for
  consecutive \<open>n\<close> starting at 1, so no two outcomes of one report share an identifier.
\<close>

theorem result_identifiers_consecutive:
  assumes "Run cfg keys now runID txns setts report"
  shows "map ID (Results report)
           = map (resultIDString runID) [1..<Suc (length (Results report))]
       \<and> distinct (map ID (Results report))"
  using runResults_ids [of cfg keys runID txns setts]
    runResults_distinct_ids [of cfg keys runID txns setts]
  by (simp only: Run_Results [OF assms] simp_thms)

theorem result_identifiers_consecutive_witness:
  "Run DefaultConfig exKeys 0 ''R'' exTxns exSetts exReport
   \<and> map ID (Results exReport)
       = [''RR-R-0001'', ''RR-R-0002'', ''RR-R-0003'', ''RR-R-0004'', ''RR-R-0005'']
   \<and> map ID (Results exReport) = map (resultIDString ''R'') [1..<Suc (length (Results exReport))]
   \<and> distinct (map ID (Results exReport))"
proof -
  have "map ID (Results exReport)
        = [''RR-R-0001'', ''RR-R-0002'', ''RR-R-0003'', ''RR-R-0004'', ''RR-R-0005'']"
    by (simp add: ex_Report ex_results)
  with result_identifiers_consecutive [OF ex_Run] ex_Run show ?thesis
    by blast
qed

text \<open>
  C10: whenever the high-priority threshold is strictly positive, no outcome with status
  \<open>unsettled\<close> appears in the high-priority list: unsettled outcomes are emitted with
  variance amount 0 and no days-to-settle value, so neither criterion can hold for them.
\<close>

theorem unsettled_never_high_priority:
  assumes "Run cfg keys now runID txns setts report" and "HighPriorityThreshold cfg > 0"
  shows "(\<forall>r \<in> set (Results report).
            Status r = StatusUnsettled \<longrightarrow> VarianceAmount r = 0 \<and> DaysToSettle r = None)
       \<and> (\<forall>r \<in> set (HighPriority report). Status r \<noteq> StatusUnsettled)"
proof -
  have bare: "\<forall>r \<in> set (Results report).
                Status r = StatusUnsettled \<longrightarrow> VarianceAmount r = 0 \<and> DaysToSettle r = None"
    using runResults_unsettled by (simp add: Run_Results [OF assms(1)])
  have "set (HighPriority report) = set (filter (highPriority_spec cfg) (Results report))"
    using Run_HighPriority (1) [OF assms(1)] by (rule mset_eq_setD)
  then have "\<forall>r \<in> set (HighPriority report). r \<in> set (Results report) \<and> highPriority_spec cfg r"
    by simp
  with bare assms(2) have "\<forall>r \<in> set (HighPriority report). Status r \<noteq> StatusUnsettled"
    by (auto simp: highPriority_spec_def)
  with bare show ?thesis by blast
qed

theorem unsettled_never_high_priority_witness:
  "Run DefaultConfig exKeys 0 ''R'' exTxns exSetts exReport
   \<and> 0 < HighPriorityThreshold DefaultConfig
   \<and> map Status (Results exReport)
       = [StatusDuplicate, StatusDuplicate, StatusUnexpectedSettlement,
          StatusMatchedWithVariance, StatusUnsettled]
   \<and> map Status (HighPriority exReport) = [StatusUnexpectedSettlement, StatusMatchedWithVariance]"
proof -
  have pos: "0 < HighPriorityThreshold DefaultConfig"
    by (simp add: DefaultConfig_def)
  have "map Status (HighPriority exReport) = [StatusUnexpectedSettlement, StatusMatchedWithVariance]"
    by (simp add: ex_Report run_eval highPriority_spec_def)
  then show ?thesis
    using unsettled_never_high_priority [OF ex_Run pos] ex_Run pos
    by (simp add: ex_Report ex_results)
qed

end
